theory Spec2Isabelle
  imports Main "HOL-Library.Char_ord" "HOL-Library.List_Lexorder" "HOL-Library.Multiset"
begin

section \<open>Python string operations used by make_node_reference.py\<close>

text \<open>
  A Python \<open>str\<close> is modelled as a \<open>string\<close>; a \<open>char\<close> stands for a code point below 256.
  Strings are compared as Python compares them: lexicographically by code point, a proper
  prefix being smaller.
\<close>

definition newline :: char where
  "newline = CHR 0x0A"

text \<open>\<open>str.isspace\<close> on the code points below 256.\<close>

definition is_space :: "char \<Rightarrow> bool" where
  "is_space c =
     (let n = (of_char c :: nat)
      in (9 \<le> n \<and> n \<le> 13) \<or> (28 \<le> n \<and> n \<le> 32) \<or> n = 133 \<or> n = 160)"

text \<open>\<open>s.startswith(p)\<close> and \<open>s.endswith(p)\<close>.\<close>

definition startswith :: "string \<Rightarrow> string \<Rightarrow> bool" where
  "startswith s p = (take (length p) s = p)"

definition endswith :: "string \<Rightarrow> string \<Rightarrow> bool" where
  "endswith s p = (length p \<le> length s \<and> drop (length s - length p) s = p)"

text \<open>\<open>s.split(c)\<close> for a separator of one character: one piece more than there are separators.\<close>

fun split_on :: "char \<Rightarrow> string \<Rightarrow> string list" where
  "split_on c [] = [[]]"
| "split_on c (x # xs) =
     (if x = c then [] # split_on c xs
      else (case split_on c xs of
              [] \<Rightarrow> [[x]]
            | y # ys \<Rightarrow> (x # y) # ys))"

text \<open>\<open>s.split(c, 1)\<close>: two pieces when the separator occurs, the whole string otherwise.\<close>

definition split_once :: "char \<Rightarrow> string \<Rightarrow> string list" where
  "split_once c s =
     (if c \<in> set s then [takeWhile (\<lambda>x. x \<noteq> c) s, tl (dropWhile (\<lambda>x. x \<noteq> c) s)]
      else [s])"

text \<open>\<open>s.split()\<close>: the maximal runs of characters that are not whitespace.\<close>

fun split_ws_from :: "string \<Rightarrow> string \<Rightarrow> string list" where
  "split_ws_from cur [] = (if cur = [] then [] else [cur])"
| "split_ws_from cur (x # xs) =
     (if is_space x then (if cur = [] then split_ws_from [] xs else cur # split_ws_from [] xs)
      else split_ws_from (cur @ [x]) xs)"

definition split_ws :: "string \<Rightarrow> string list" where
  "split_ws s = split_ws_from [] s"

text \<open>\<open>sep.join(xs)\<close>.\<close>

fun join :: "string \<Rightarrow> string list \<Rightarrow> string" where
  "join sep [] = []"
| "join sep [x] = x"
| "join sep (x # y # ys) = x @ sep @ join sep (y # ys)"

text \<open>\<open>s.rstrip(cs)\<close> and \<open>s.rstrip()\<close>.\<close>

definition rstrip_chars :: "string \<Rightarrow> string \<Rightarrow> string" where
  "rstrip_chars cs s = rev (dropWhile (\<lambda>c. c \<in> set cs) (rev s))"

definition rstrip :: "string \<Rightarrow> string" where
  "rstrip s = rev (dropWhile is_space (rev s))"

text \<open>\<open>s.replace(c, "")\<close> and \<open>s.replace(c, d)\<close> for single characters.\<close>

definition remove_char :: "char \<Rightarrow> string \<Rightarrow> string" where
  "remove_char c s = filter (\<lambda>x. x \<noteq> c) s"

definition replace_char :: "char \<Rightarrow> char \<Rightarrow> string \<Rightarrow> string" where
  "replace_char c d s = map (\<lambda>x. if x = c then d else x) s"

text \<open>\<open>s.lower()\<close> on the code points below 256.\<close>

definition lower_char :: "char \<Rightarrow> char" where
  "lower_char c =
     (let n = (of_char c :: nat)
      in if (65 \<le> n \<and> n \<le> 90) \<or> (192 \<le> n \<and> n \<le> 222 \<and> n \<noteq> 215) then char_of (n + 32) else c)"

definition lower :: "string \<Rightarrow> string" where
  "lower s = map lower_char s"

text \<open>
  \<open>s.capitalize()\<close>: the first character through the case table of the interpreter, the
  others in lower case. The table is not part of the script and depends on the interpreter
  (title case from Python 3.8 on, upper case before; one character can give two, and a
  character below 256 can give one above), so it is a parameter: \<open>title_case c\<close> is the
  string the interpreter gives for the first character \<open>c\<close>.
\<close>

definition capitalize :: "(char \<Rightarrow> string) \<Rightarrow> string \<Rightarrow> string" where
  "capitalize title_case s = (case s of [] \<Rightarrow> [] | c # cs \<Rightarrow> title_case c @ lower cs)"

text \<open>
  \<open>" ".join(s.split()).replace("\n", "")\<close>, the normalisation applied to the description,
  to the socket and option descriptions and to the deprecation message.
\<close>

definition collapse :: "string \<Rightarrow> string" where
  "collapse s = remove_char newline (join '' '' (split_ws s))"

section \<open>The document tree\<close>

text \<open>
  Modelled from the spec: the node classes of the markdownmaker package, which the script
  installs and imports. Inline spans and blocks are the ones of the spec's DocumentNode;
  a header carries its level (1 for the title, 2 inside the first \<open>HeaderSubLevel\<close>, 3 inside
  the second); \<open>Optional\<close> is the slot that renders its content when it has one.
\<close>

datatype inline =
    Text string
  | Bold inline
  | Italic inline
  | InlineCode inline
  | Link inline string

datatype node =
    Span inline
  | Header nat string
  | Paragraph inline
  | UnorderedList "node list"
  | Image string string
  | Quote inline
  | HorizontalRule
  | Optional "node option"

text \<open>
  Modelled from the spec: \<open>str(node)\<close> of an inline span, as an f-string takes it: bold as
  \<open>**text**\<close>, italic as \<open>*text*\<close>, inline code between backquotes, a link as \<open>[label](url)\<close>.
\<close>

fun str :: "inline \<Rightarrow> string" where
  "str (Text s) = s"
| "str (Bold x) = ''**'' @ str x @ ''**''"
| "str (Italic x) = ''*'' @ str x @ ''*''"
| "str (InlineCode x) = ''`'' @ str x @ ''`''"
| "str (Link l url) = ''['' @ str l @ '']('' @ url @ '')''"

section \<open>The registry\<close>

text \<open>
  The node items, node classes and categories come from Blender and the Armory add-on.
  A node item has the name of its class and a label; the class has the docstring (absent
  when \<open>__doc__\<close> is \<open>None\<close>), the module path and the identifier \<open>bl_idname\<close>. A category has
  the nodes that \<open>get_all_nodes()\<close> yields and its deprecated nodes.
\<close>

record nodeitem =
  nodetype :: string
  label :: string

record nodeclass =
  doc :: "string option"
  module :: string
  bl_idname :: string

record category =
  name :: string
  description :: string
  all_nodes :: "nodeitem list"
  deprecated_nodes :: "nodeitem list"

text \<open>
  What \<open>run\<close> reads from its environment: \<open>category_items\<close> is the ordered dictionary from
  a section to its categories, \<open>all_categories\<close> is what \<open>get_all_categories()\<close> yields,
  \<open>get_nodetype\<close> is the lookup of a class by its name, \<open>arm_version\<close> is
  \<open>arm.props.arm_version\<close>, \<open>title_case\<close> is the case table that \<open>str.capitalize\<close> applies to
  a first character.
\<close>

record registry =
  category_items :: "(string \<times> category list) list"
  all_categories :: "category list"
  get_nodetype :: "string \<Rightarrow> nodeclass"
  arm_version :: string
  title_case :: "char \<Rightarrow> string"

section \<open>Links\<close>

definition PY_NODE_DIR :: string where
  "PY_NODE_DIR = ''https://github.com/armory3d/armory/blob/master/blender/arm/logicnode/''"

definition HX_NODE_DIR :: string where
  "HX_NODE_DIR = ''https://github.com/armory3d/armory/blob/master/Sources/armory/logicnode/''"

definition IMG_DIR :: string where
  "IMG_DIR = ''https://github.com/armory3d/armory_wiki_images/raw/master/logic_nodes/''"

definition get_anchor :: "string \<Rightarrow> string" where
  "get_anchor text = ''#'' @ replace_char CHR '' '' CHR ''-'' (lower text)"

definition make_node_link :: "string \<Rightarrow> inline" where
  "make_node_link nodename = Link (InlineCode (Text nodename)) (get_anchor nodename)"

section \<open>generate_node_documentation\<close>

datatype error = ValueError

text \<open>
  \<open>a, b = xs\<close>: unpacking a list into two names raises \<open>ValueError\<close> unless the list has
  exactly two elements.
\<close>

fun unpack2 :: "'a list \<Rightarrow> error + ('a \<times> 'a)" where
  "unpack2 [a, b] = Inr (a, b)"
| "unpack2 _ = Inl ValueError"

text \<open>
  The function adds blocks to the document and keeps four lists and the deprecation slot
  that are already in the document when it fills them: \<open>UnorderedList(see_list)\<close> holds the
  list object itself, and \<open>see_list.append\<close> changes what the block shows. So the blocks the
  call has added are kept with references (\<open>ListRef\<close>, \<open>NoteRef\<close>) to the call's own store,
  and are resolved when the call returns: nothing changes the four lists or the slot
  afterwards.
\<close>

datatype list_id = SeeList | InputList | OutputList | OptionList

datatype pblock = Block node | ListRef list_id | NoteRef

record gen_state =
  added :: "pblock list"
  has_see :: bool
  has_inputs :: bool
  has_outputs :: bool
  has_options :: bool
  see_list :: "node list"
  input_list :: "node list"
  output_list :: "node list"
  option_list :: "node list"
  deprecation_note :: "node option"

definition init_state :: "string \<Rightarrow> gen_state" where
  "init_state node_description =
     \<lparr> added = [NoteRef, Block (Paragraph (Text node_description))],
       has_see = False, has_inputs = False, has_outputs = False, has_options = False,
       see_list = [], input_list = [], output_list = [], option_list = [],
       deprecation_note = None \<rparr>"

definition add_see_header :: "gen_state \<Rightarrow> gen_state" where
  "add_see_header s =
     (if \<not> has_see s
      then s\<lparr> has_see := True,
               added := added s @ [Block (Paragraph (Bold (Text ''See also:''))), ListRef SeeList] \<rparr>
      else s)"

text \<open>The body of the first loop (references).\<close>

definition see_step :: "string \<Rightarrow> gen_state \<Rightarrow> gen_state" where
  "see_step part s =
     (if startswith part ''seeNode '' then
        (let s1 = add_see_header s
         in s1\<lparr> see_list := see_list s1 @ [Span (Italic (make_node_link (rstrip (drop 8 part))))] \<rparr>)
      else if startswith part ''see '' then
        (let s1 = add_see_header s
         in s1\<lparr> see_list := see_list s1 @ [Span (Italic (Text (rstrip (drop 4 part))))] \<rparr>)
      else s)"

fun see_loop :: "string list \<Rightarrow> gen_state \<Rightarrow> gen_state" where
  "see_loop [] s = s"
| "see_loop (part # parts) s = see_loop parts (see_step part s)"

definition add_inputs_header :: "gen_state \<Rightarrow> gen_state" where
  "add_inputs_header s =
     (if \<not> has_inputs s
      then s\<lparr> has_inputs := True,
               added := added s @ [Block (Paragraph (Bold (Text ''Inputs:''))), ListRef InputList] \<rparr>
      else s)"

definition add_outputs_header :: "gen_state \<Rightarrow> gen_state" where
  "add_outputs_header s =
     (if \<not> has_outputs s
      then s\<lparr> has_outputs := True,
               added := added s @ [Block (Paragraph (Bold (Text ''Outputs:''))), ListRef OutputList] \<rparr>
      else s)"

definition add_options_header :: "gen_state \<Rightarrow> gen_state" where
  "add_options_header s =
     (if \<not> has_options s
      then s\<lparr> has_options := True,
               added := added s @ [Block (Paragraph (Bold (Text ''Options:''))), ListRef OptionList] \<rparr>
      else s)"

text \<open>The item of a socket or an option: \<open>f"{InlineCode(name)}: {description}"\<close>.\<close>

definition socket_item :: "string \<Rightarrow> string \<Rightarrow> node" where
  "socket_item socket_name descr =
     Span (Text (str (InlineCode (Text socket_name)) @ '': '' @ collapse descr))"

text \<open>The links of the alternatives: the pieces between commas, the empty ones left out.\<close>

fun alternative_links :: "string list \<Rightarrow> string list" where
  "alternative_links [] = []"
| "alternative_links (alternative # rest) =
     (if alternative = [] then alternative_links rest
      else str (make_node_link alternative) # alternative_links rest)"

definition deprecation_message :: "string \<Rightarrow> string \<Rightarrow> string" where
  "deprecation_message alternatives message0 =
     (let message = collapse message0;
          message = (if \<not> endswith message ''.'' \<and> \<not> message = [] then message @ ''.'' else message);
          links = alternative_links (split_on CHR '','' alternatives)
      in if length links > 0
         then (''Please use the following node(s) instead: '' @ join '', '' links @ ''.'')
              @ '' '' @ message
         else message)"

definition deprecation_quote :: "string \<Rightarrow> string \<Rightarrow> node" where
  "deprecation_quote alternatives message0 =
     Quote (Text (str (Bold (Text ''DEPRECATED.''))
       @ '' This node is deprecated and will be removed in future versions of Armory. ''
       @ deprecation_message alternatives message0))"

text \<open>The body of the second loop (sockets, options, deprecation).\<close>

definition io_step :: "string \<Rightarrow> gen_state \<Rightarrow> error + gen_state" where
  "io_step part s =
     (if startswith part ''input '' then
        (let s1 = add_inputs_header s
         in case unpack2 (split_once CHR '':'' (drop 6 part)) of
              Inl e \<Rightarrow> Inl e
            | Inr (socket_name, descr) \<Rightarrow>
                Inr (s1\<lparr> input_list := input_list s1 @ [socket_item socket_name descr] \<rparr>))
      else if startswith part ''output '' then
        (let s1 = add_outputs_header s
         in case unpack2 (split_once CHR '':'' (drop 7 part)) of
              Inl e \<Rightarrow> Inl e
            | Inr (socket_name, descr) \<Rightarrow>
                Inr (s1\<lparr> output_list := output_list s1 @ [socket_item socket_name descr] \<rparr>))
      else if startswith part ''option '' then
        (let s1 = add_options_header s
         in case unpack2 (split_once CHR '':'' (drop 7 part)) of
              Inl e \<Rightarrow> Inl e
            | Inr (option_name, descr) \<Rightarrow>
                Inr (s1\<lparr> option_list := option_list s1 @ [socket_item option_name descr] \<rparr>))
      else if startswith part ''deprecated '' then
        (case unpack2 (split_once CHR '':'' (drop 11 part)) of
           Inl e \<Rightarrow> Inl e
         | Inr (alternatives, message) \<Rightarrow>
             Inr (s\<lparr> deprecation_note := Some (deprecation_quote alternatives message) \<rparr>))
      else Inr s)"

fun io_loop :: "string list \<Rightarrow> gen_state \<Rightarrow> error + gen_state" where
  "io_loop [] s = Inr s"
| "io_loop (part # parts) s =
     (case io_step part s of
        Inl e \<Rightarrow> Inl e
      | Inr s1 \<Rightarrow> io_loop parts s1)"

definition add_block :: "node \<Rightarrow> gen_state \<Rightarrow> gen_state" where
  "add_block b s = s\<lparr> added := added s @ [Block b] \<rparr>"

definition image_block :: "nodeitem \<Rightarrow> category \<Rightarrow> node" where
  "image_block item cat =
     Image (IMG_DIR @ lower (name cat) @ ''/'' @ nodetype item @ ''.jpg'') (label item @ '' node'')"

definition sources_block :: "nodeclass \<Rightarrow> node" where
  "sources_block cls =
     (let node_file_py = join ''/'' (drop 2 (split_on CHR ''.'' (module cls))) @ ''.py'';
          node_file_hx = drop 2 (bl_idname cls) @ ''.hx'';
          pylink = Link (Text ''Python'') (PY_NODE_DIR @ node_file_py);
          hxlink = Link (Text ''Haxe'') (HX_NODE_DIR @ node_file_hx)
      in Paragraph (Text (str (Bold (Text ''Sources:'')) @ '' '' @ str pylink @ '' | '' @ str hxlink)))"

fun resolve :: "gen_state \<Rightarrow> pblock \<Rightarrow> node" where
  "resolve s (Block b) = b"
| "resolve s (ListRef SeeList) = UnorderedList (see_list s)"
| "resolve s (ListRef InputList) = UnorderedList (input_list s)"
| "resolve s (ListRef OutputList) = UnorderedList (output_list s)"
| "resolve s (ListRef OptionList) = UnorderedList (option_list s)"
| "resolve s NoteRef = Optional (deprecation_note s)"

text \<open>The description: the docstring up to the first \<open>@\<close>.\<close>

definition node_description :: "string list \<Rightarrow> string" where
  "node_description doc_parts =
     (case doc_parts of
        [] \<Rightarrow> []
      | p # _ \<Rightarrow> remove_char newline (join '' '' (split_ws (rstrip_chars [newline] p))))"

text \<open>
  The blocks one call adds to the document, or the exception that ends the call. With no
  docstring the call adds nothing.
\<close>

definition generate_node_documentation ::
  "(string \<Rightarrow> nodeclass) \<Rightarrow> nodeitem \<Rightarrow> category \<Rightarrow> error + node list" where
  "generate_node_documentation types item cat =
     (let cls = types (nodetype item)
      in case doc cls of
           None \<Rightarrow> Inr []
         | Some d \<Rightarrow>
             (let doc_parts = split_on CHR ''@'' d;
                  s0 = init_state (node_description doc_parts);
                  s1 = see_loop doc_parts s0;
                  s2 = add_block (image_block item cat) s1
              in case io_loop doc_parts s2 of
                   Inl e \<Rightarrow> Inl e
                 | Inr s3 \<Rightarrow>
                     (let s4 = add_block (sources_block cls) s3
                      in Inr (map (resolve s4) (added s4)))))"

section \<open>run\<close>

definition intro_blocks :: "string \<Rightarrow> node list" where
  "intro_blocks version =
     [Header 1 ''Logic Nodes Reference'',
      Paragraph (Italic (Text (
        ''This document was generated automatically. Please do not edit this''
        @ '' page directly, instead change the docstrings of the nodes in their''
        @ '' '' @ str (Link (Text ''Python files'')
                    ''https://github.com/armory3d/armory/tree/master/blender/arm/logicnode'')
        @ '' or the '' @ str (Link (Text ''generator script'')
                    ''https://github.com/armory3d/armory_tools/blob/master/make_node_reference.py'')
        @ '' and '' @ str (Link (Text ''open a pull request'')
                    ''https://github.com/armory3d/armory/wiki/contribute#creating-a-pull-request'')
        @ ''.''
        @ '' Thank you for contributing to this reference!''))),
      Paragraph (Italic (Text (''This reference was built for ''
        @ str (Bold (Text (''Armory '' @ version))) @ ''.''))),
      HorizontalRule]"

text \<open>The listing of the categories by section; a section with no category is left out.\<close>

fun listing_items :: "(char \<Rightarrow> string) \<Rightarrow> (string \<times> category list) list \<Rightarrow> node list" where
  "listing_items tc [] = []"
| "listing_items tc ((section, section_categories) # rest) =
     (if length section_categories > 0
      then [Span (Bold (Text (capitalize tc section))),
            UnorderedList (map (\<lambda>c. Span (Link (Text (name c)) (get_anchor (name c))))
                               section_categories)]
           @ listing_items tc rest
      else listing_items tc rest)"

text \<open>The nodes of a category in the order of the inner loop.\<close>

definition sorted_nodes :: "category \<Rightarrow> nodeitem list" where
  "sorted_nodes cat = sort_key label (all_nodes cat @ deprecated_nodes cat)"

fun nodes_loop ::
  "(string \<Rightarrow> nodeclass) \<Rightarrow> category \<Rightarrow> nodeitem list \<Rightarrow> node list \<Rightarrow> error + node list" where
  "nodes_loop types cat [] document = Inr document"
| "nodes_loop types cat (item # items) document =
     (case generate_node_documentation types item cat of
        Inl e \<Rightarrow> Inl e
      | Inr blocks \<Rightarrow> nodes_loop types cat items (document @ [Header 3 (label item)] @ blocks))"

definition category_header :: "category \<Rightarrow> node list" where
  "category_header cat =
     [Header 2 (name cat)]
     @ (if description cat \<noteq> [] then [Paragraph (Text (description cat))] else [])"

fun categories_loop ::
  "(string \<Rightarrow> nodeclass) \<Rightarrow> category list \<Rightarrow> node list \<Rightarrow> error + node list" where
  "categories_loop types [] document = Inr document"
| "categories_loop types (cat # cats) document =
     (case nodes_loop types cat (sorted_nodes cat) (document @ category_header cat) of
        Inl e \<Rightarrow> Inl e
      | Inr document1 \<Rightarrow> categories_loop types cats document1)"

text \<open>
  The document that \<open>run\<close> hands to \<open>Document.write()\<close>, or the exception that ends the run
  before the file is opened.
\<close>

definition run :: "registry \<Rightarrow> error + node list" where
  "run reg =
     (let document = intro_blocks (arm_version reg)
                     @ [Header 2 ''Node Categories'',
                        UnorderedList (listing_items (title_case reg) (category_items reg))]
      in categories_loop (get_nodetype reg) (all_categories reg) document)"

section \<open>Reading the fragments\<close>

text \<open>
  The conditions of the two loops, named, so that the theorems can speak about the
  fragments of a docstring. A fragment is one element of \<open>doc.split("@")\<close>; the loops go
  through all of them, the first one included.
\<close>

text \<open>The fragments the first loop takes, and the item it appends for one.\<close>

definition is_see :: "string \<Rightarrow> bool" where
  "is_see part = (startswith part ''seeNode '' \<or> startswith part ''see '')"

definition see_item :: "string \<Rightarrow> node" where
  "see_item part =
     (if startswith part ''seeNode '' then Span (Italic (make_node_link (rstrip (drop 8 part))))
      else Span (Italic (Text (rstrip (drop 4 part)))))"

text \<open>The list a fragment goes to in the second loop, by the order of its branches.\<close>

definition io_kind :: "string \<Rightarrow> list_id option" where
  "io_kind part =
     (if startswith part ''input '' then Some InputList
      else if startswith part ''output '' then Some OutputList
      else if startswith part ''option '' then Some OptionList
      else None)"

definition io_kinds :: "string list \<Rightarrow> list_id list" where
  "io_kinds parts = List.map_filter io_kind parts"

definition is_deprecated :: "string \<Rightarrow> bool" where
  "is_deprecated part = (io_kind part = None \<and> startswith part ''deprecated '')"

text \<open>The section of a fragment in either loop.\<close>

definition part_kind :: "string \<Rightarrow> list_id option" where
  "part_kind part = (if is_see part then Some SeeList else io_kind part)"

text \<open>A fragment on which the second loop raises: the payload it unpacks has no colon.\<close>

definition raises :: "string \<Rightarrow> bool" where
  "raises part =
     (if startswith part ''input '' then CHR '':'' \<notin> set (drop 6 part)
      else if startswith part ''output '' then CHR '':'' \<notin> set (drop 7 part)
      else if startswith part ''option '' then CHR '':'' \<notin> set (drop 7 part)
      else if startswith part ''deprecated '' then CHR '':'' \<notin> set (drop 11 part)
      else False)"

text \<open>A socket or option tag with no colon in its payload.\<close>

definition malformed_tag :: "string \<Rightarrow> bool" where
  "malformed_tag part =
     ((startswith part ''input '' \<and> CHR '':'' \<notin> set (drop 6 part))
      \<or> (startswith part ''output '' \<and> CHR '':'' \<notin> set (drop 7 part))
      \<or> (startswith part ''option '' \<and> CHR '':'' \<notin> set (drop 7 part)))"

text \<open>The item of a payload that has a colon: name before the first colon, description after.\<close>

definition socket_of :: "string \<Rightarrow> node" where
  "socket_of payload =
     socket_item (takeWhile (\<lambda>x. x \<noteq> CHR '':'') payload) (tl (dropWhile (\<lambda>x. x \<noteq> CHR '':'') payload))"

fun section_item :: "list_id \<Rightarrow> string \<Rightarrow> node" where
  "section_item SeeList part = see_item part"
| "section_item InputList part = socket_of (drop 6 part)"
| "section_item OutputList part = socket_of (drop 7 part)"
| "section_item OptionList part = socket_of (drop 7 part)"

definition deprecation_of :: "string \<Rightarrow> node" where
  "deprecation_of part =
     deprecation_quote (takeWhile (\<lambda>x. x \<noteq> CHR '':'') (drop 11 part))
                       (tl (dropWhile (\<lambda>x. x \<noteq> CHR '':'') (drop 11 part)))"

text \<open>The content of the deprecation slot after the second loop: the last tag wins.\<close>

definition final_note :: "string list \<Rightarrow> node option" where
  "final_note parts =
     (case rev (filter is_deprecated parts) of
        [] \<Rightarrow> None
      | p # _ \<Rightarrow> Some (deprecation_of p))"

text \<open>The header of a section and the two blocks a section consists of.\<close>

fun header_text :: "list_id \<Rightarrow> string" where
  "header_text SeeList = ''See also:''"
| "header_text InputList = ''Inputs:''"
| "header_text OutputList = ''Outputs:''"
| "header_text OptionList = ''Options:''"

definition section_header :: "list_id \<Rightarrow> node" where
  "section_header k = Paragraph (Bold (Text (header_text k)))"

definition header_blocks :: "list_id \<Rightarrow> pblock list" where
  "header_blocks k = [Block (section_header k), ListRef k]"

definition see_blocks :: "pblock list" where
  "see_blocks = [Block (section_header SeeList), ListRef SeeList]"

definition section_nodes :: "string list \<Rightarrow> list_id \<Rightarrow> node list" where
  "section_nodes parts k =
     [section_header k,
      UnorderedList (map (section_item k) (filter (\<lambda>p. part_kind p = Some k) parts))]"

text \<open>The flag and the list of a section in the state of a call.\<close>

fun has :: "list_id \<Rightarrow> gen_state \<Rightarrow> bool" where
  "has SeeList s = has_see s"
| "has InputList s = has_inputs s"
| "has OutputList s = has_outputs s"
| "has OptionList s = has_options s"

fun list_of :: "list_id \<Rightarrow> gen_state \<Rightarrow> node list" where
  "list_of SeeList s = see_list s"
| "list_of InputList s = input_list s"
| "list_of OutputList s = output_list s"
| "list_of OptionList s = option_list s"

text \<open>The elements of a list in the order of their first occurrence.\<close>

fun firsts :: "'a list \<Rightarrow> 'a list" where
  "firsts [] = []"
| "firsts (x # xs) = x # filter (\<lambda>y. y \<noteq> x) (firsts xs)"

text \<open>The blocks of a call that returns, from the fragments of the docstring.\<close>

definition node_layout :: "nodeitem \<Rightarrow> category \<Rightarrow> nodeclass \<Rightarrow> string list \<Rightarrow> node list" where
  "node_layout item cat cls parts =
     [Optional (final_note parts), Paragraph (Text (node_description parts))]
     @ (if \<exists>p \<in> set parts. is_see p then section_nodes parts SeeList else [])
     @ [image_block item cat]
     @ concat (map (section_nodes parts) (firsts (io_kinds parts)))
     @ [sources_block cls]"


text \<open>The blocks that the call for a node adds; none when it raises.\<close>

definition node_blocks :: "(string \<Rightarrow> nodeclass) \<Rightarrow> category \<Rightarrow> nodeitem \<Rightarrow> node list" where
  "node_blocks types cat item =
     (case generate_node_documentation types item cat of
        Inl e \<Rightarrow> []
      | Inr blocks \<Rightarrow> blocks)"

text \<open>
  The state of a call when the loop that handles the kind \<open>k\<close> has gone through the
  fragments \<open>pre\<close>, and the step of that loop on the next fragment. The first loop handles
  the see-also kind and starts from the initial state; the second loop handles the others
  and starts when the first loop is over and the image is added.
\<close>

definition state_before ::
  "nodeitem \<Rightarrow> category \<Rightarrow> string list \<Rightarrow> list_id \<Rightarrow> string list \<Rightarrow> error + gen_state" where
  "state_before item cat parts k pre =
     (if k = SeeList then Inr (see_loop pre (init_state (node_description parts)))
      else io_loop pre (add_block (image_block item cat)
                          (see_loop parts (init_state (node_description parts)))))"

definition step_of :: "list_id \<Rightarrow> string \<Rightarrow> gen_state \<Rightarrow> error + gen_state" where
  "step_of k part s = (if k = SeeList then Inr (see_step part s) else io_step part s)"

text \<open>A fragment that one of the two loops takes: it starts with one of the six prefixes.\<close>

definition is_tag :: "string \<Rightarrow> bool" where
  "is_tag part = (is_see part \<or> io_kind part \<noteq> None \<or> startswith part ''deprecated '')"

text \<open>The blocks of a category in the main pass: its header and the subtrees of its nodes.\<close>

definition category_blocks :: "(string \<Rightarrow> nodeclass) \<Rightarrow> category \<Rightarrow> node list" where
  "category_blocks types cat =
     category_header cat
     @ concat (map (\<lambda>item. Header 3 (label item) # node_blocks types cat item) (sorted_nodes cat))"

section \<open>The two loops\<close>

lemma split_on_not_Nil: "split_on c s \<noteq> []"
  by (induction s) (auto split: list.splits)

lemma startswith_Cons:
  "startswith s (c # p) \<longleftrightarrow> (\<exists>t. s = c # t \<and> startswith t p)"
  by (cases s) (auto simp: startswith_def)

lemma startswith_Nil: "startswith s []"
  by (simp add: startswith_def)

lemma is_see_io_kind: "is_see p \<Longrightarrow> io_kind p = None"
  by (auto simp: is_see_def io_kind_def startswith_Cons)

lemma is_see_not_deprecated: "is_see p \<Longrightarrow> \<not> startswith p ''deprecated ''"
  by (auto simp: is_see_def startswith_Cons)

lemma io_kind_not_See: "io_kind p \<noteq> Some SeeList"
  by (simp add: io_kind_def)

lemma part_kind_io: "k \<noteq> SeeList \<Longrightarrow> part_kind p = Some k \<longleftrightarrow> io_kind p = Some k"
  by (auto simp: part_kind_def is_see_io_kind)

lemma part_kind_see: "part_kind p = Some SeeList \<longleftrightarrow> is_see p"
  by (auto simp: part_kind_def io_kind_not_See)

lemma unpack2_split_once:
  "unpack2 (split_once c s) =
     (if c \<in> set s then Inr (takeWhile (\<lambda>x. x \<noteq> c) s, tl (dropWhile (\<lambda>x. x \<noteq> c) s))
      else Inl ValueError)"
  by (simp add: split_once_def)

lemma see_step_not_see: "\<not> is_see p \<Longrightarrow> see_step p s = s"
  by (simp add: see_step_def is_see_def)

lemma see_step_see:
  "is_see p \<Longrightarrow> see_step p s =
     (add_see_header s)\<lparr> see_list := see_list (add_see_header s) @ [see_item p] \<rparr>"
  by (auto simp: see_step_def is_see_def see_item_def Let_def startswith_Cons)

lemma see_loop_append: "see_loop (ps @ qs) s = see_loop qs (see_loop ps s)"
  by (induction ps arbitrary: s) auto

lemma see_loop_see_list:
  "see_list (see_loop ps s) = see_list s @ map see_item (filter is_see ps)"
proof (induction ps arbitrary: s)
  case Nil
  show ?case by simp
next
  case (Cons p ps)
  show ?case
  proof (cases "is_see p")
    case True
    then show ?thesis
      by (simp add: Cons.IH see_step_see add_see_header_def)
  next
    case False
    then show ?thesis
      by (simp add: Cons.IH see_step_not_see)
  qed
qed

lemma see_loop_added:
  "added (see_loop ps s) =
     added s @ (if \<not> has_see s \<and> (\<exists>p \<in> set ps. is_see p) then see_blocks else [])"
proof (induction ps arbitrary: s)
  case Nil
  show ?case by simp
next
  case (Cons p ps)
  show ?case
  proof (cases "is_see p")
    case True
    then show ?thesis
      by (simp add: Cons.IH see_step_see add_see_header_def see_blocks_def section_header_def)
  next
    case False
    then show ?thesis
      by (simp add: Cons.IH see_step_not_see)
  qed
qed

lemma see_loop_has_see:
  "has_see (see_loop ps s) = (has_see s \<or> (\<exists>p \<in> set ps. is_see p))"
proof (induction ps arbitrary: s)
  case Nil
  show ?case by simp
next
  case (Cons p ps)
  show ?case
  proof (cases "is_see p")
    case True
    then show ?thesis
      by (simp add: Cons.IH see_step_see add_see_header_def)
  next
    case False
    then show ?thesis
      by (simp add: Cons.IH see_step_not_see)
  qed
qed

lemma see_step_others:
  "has_inputs (see_step p s) = has_inputs s \<and> has_outputs (see_step p s) = has_outputs s
   \<and> has_options (see_step p s) = has_options s \<and> input_list (see_step p s) = input_list s
   \<and> output_list (see_step p s) = output_list s \<and> option_list (see_step p s) = option_list s
   \<and> deprecation_note (see_step p s) = deprecation_note s"
  by (simp add: see_step_def add_see_header_def Let_def)

lemma see_loop_others:
  "has_inputs (see_loop ps s) = has_inputs s \<and> has_outputs (see_loop ps s) = has_outputs s
   \<and> has_options (see_loop ps s) = has_options s \<and> input_list (see_loop ps s) = input_list s
   \<and> output_list (see_loop ps s) = output_list s \<and> option_list (see_loop ps s) = option_list s
   \<and> deprecation_note (see_loop ps s) = deprecation_note s"
  by (induction ps arbitrary: s) (simp_all add: see_step_others)

lemma io_step_raises: "raises p \<Longrightarrow> io_step p s = Inl ValueError"
  by (auto simp: raises_def io_step_def unpack2_split_once Let_def split: if_splits)

lemma io_step_Inr_iff: "(\<exists>s'. io_step p s = Inr s') \<longleftrightarrow> \<not> raises p"
  by (auto simp: raises_def io_step_def unpack2_split_once Let_def split: if_splits)

lemma io_step_Inl: "io_step p s = Inl e \<Longrightarrow> raises p \<and> e = ValueError"
  by (auto simp: raises_def io_step_def unpack2_split_once Let_def split: if_splits)

lemma io_step_has:
  "io_step p s = Inr s' \<Longrightarrow> has k s' = (has k s \<or> io_kind p = Some k)"
  by (cases k)
     (auto simp: io_step_def io_kind_def unpack2_split_once Let_def add_inputs_header_def
        add_outputs_header_def add_options_header_def startswith_Cons split: if_splits)

lemma io_step_items:
  "io_step p s = Inr s' \<Longrightarrow>
   list_of k s' = list_of k s @ (if io_kind p = Some k then [section_item k p] else [])"
  by (cases k)
     (auto simp: io_step_def io_kind_def unpack2_split_once Let_def add_inputs_header_def
        add_outputs_header_def add_options_header_def socket_of_def startswith_Cons split: if_splits)

lemma io_step_added:
  "io_step p s = Inr s' \<Longrightarrow>
   added s' = added s @ (case io_kind p of None \<Rightarrow> []
                         | Some k \<Rightarrow> if has k s then [] else header_blocks k)"
  by (auto simp: io_step_def io_kind_def unpack2_split_once Let_def add_inputs_header_def
        add_outputs_header_def add_options_header_def header_blocks_def section_header_def
        split: if_splits)

lemma io_loop_append:
  "io_loop (ps @ qs) s = (case io_loop ps s of Inl e \<Rightarrow> Inl e | Inr s1 \<Rightarrow> io_loop qs s1)"
  by (induction ps arbitrary: s) (auto split: sum.splits)

lemma io_loop_raises: "\<exists>p \<in> set ps. raises p \<Longrightarrow> io_loop ps s = Inl ValueError"
proof (induction ps arbitrary: s)
  case Nil
  then show ?case by simp
next
  case (Cons p ps)
  show ?case
  proof (cases "io_step p s")
    case (Inl e)
    then show ?thesis using io_step_Inl [OF Inl] by simp
  next
    case (Inr s1)
    then have "\<not> raises p" using io_step_Inr_iff by blast
    with Cons.prems have "\<exists>p \<in> set ps. raises p" by simp
    then show ?thesis using Inr Cons.IH by simp
  qed
qed

lemma io_loop_succeeds: "\<forall>p \<in> set ps. \<not> raises p \<Longrightarrow> \<exists>s'. io_loop ps s = Inr s'"
proof (induction ps arbitrary: s)
  case Nil
  then show ?case by simp
next
  case (Cons p ps)
  then have "\<not> raises p" by simp
  then obtain s1 where s1: "io_step p s = Inr s1" using io_step_Inr_iff by blast
  from Cons.prems have "\<forall>p \<in> set ps. \<not> raises p" by simp
  from Cons.IH [OF this] show ?case using s1 by simp
qed

lemma io_loop_Inr_iff: "(\<exists>s'. io_loop ps s = Inr s') \<longleftrightarrow> (\<forall>p \<in> set ps. \<not> raises p)"
proof
  assume "\<exists>s'. io_loop ps s = Inr s'"
  then obtain s' where s': "io_loop ps s = Inr s'" by blast
  show "\<forall>p \<in> set ps. \<not> raises p"
  proof
    fix p assume p: "p \<in> set ps"
    show "\<not> raises p"
    proof
      assume "raises p"
      with p have "\<exists>p \<in> set ps. raises p" by blast
      from io_loop_raises [OF this, of s] s' show False by simp
    qed
  qed
next
  assume "\<forall>p \<in> set ps. \<not> raises p"
  then show "\<exists>s'. io_loop ps s = Inr s'" by (rule io_loop_succeeds)
qed

lemma io_loop_has:
  "io_loop ps s = Inr s' \<Longrightarrow> has k s' = (has k s \<or> (\<exists>p \<in> set ps. io_kind p = Some k))"
proof (induction ps arbitrary: s)
  case Nil
  then show ?case by simp
next
  case (Cons p ps)
  from Cons.prems obtain s1 where s1: "io_step p s = Inr s1" and l: "io_loop ps s1 = Inr s'"
    by (auto split: sum.splits)
  show ?case using Cons.IH [OF l] io_step_has [OF s1, of k] by auto
qed

lemma io_loop_items:
  "io_loop ps s = Inr s' \<Longrightarrow>
   list_of k s' = list_of k s @ map (section_item k) (filter (\<lambda>p. io_kind p = Some k) ps)"
proof (induction ps arbitrary: s)
  case Nil
  then show ?case by simp
next
  case (Cons p ps)
  from Cons.prems obtain s1 where s1: "io_step p s = Inr s1" and l: "io_loop ps s1 = Inr s'"
    by (auto split: sum.splits)
  show ?case using Cons.IH [OF l] io_step_items [OF s1, of k] by auto
qed

lemma filter_firsts_step:
  assumes "\<And>y. Q y \<longleftrightarrow> (P y \<and> y \<noteq> x)"
  shows "filter P (filter (\<lambda>y. y \<noteq> x) xs) = filter Q xs"
  using assms by (induction xs) auto

lemma io_loop_added:
  "io_loop ps s = Inr s' \<Longrightarrow>
   added s' = added s @ concat (map header_blocks (filter (\<lambda>k. \<not> has k s) (firsts (io_kinds ps))))"
proof (induction ps arbitrary: s)
  case Nil
  then show ?case by (simp add: io_kinds_def map_filter_simps)
next
  case (Cons p ps)
  from Cons.prems obtain s1 where s1: "io_step p s = Inr s1" and l: "io_loop ps s1 = Inr s'"
    by (auto split: sum.splits)
  note IH = Cons.IH [OF l]
  note A = io_step_added [OF s1]
  have H: "\<And>k. has k s1 = (has k s \<or> io_kind p = Some k)" using io_step_has [OF s1] by simp
  show ?case
  proof (cases "io_kind p")
    case None
    then have "\<And>k. has k s1 = has k s" using H by simp
    then show ?thesis using IH A None by (simp add: io_kinds_def map_filter_simps)
  next
    case (Some k)
    have ks: "io_kinds (p # ps) = k # io_kinds ps"
      using Some by (simp add: io_kinds_def map_filter_simps)
    have F: "filter (\<lambda>j. \<not> has j s) (filter (\<lambda>y. y \<noteq> k) (firsts (io_kinds ps)))
             = filter (\<lambda>j. \<not> has j s1) (firsts (io_kinds ps))"
      by (rule filter_firsts_step) (auto simp: H Some)
    show ?thesis
    proof (cases "has k s")
      case True
      then show ?thesis using IH A Some ks F by simp
    next
      case False
      then show ?thesis using IH A Some ks F by simp
    qed
  qed
qed

lemma io_step_see_fields:
  "io_step p s = Inr s' \<Longrightarrow> has_see s' = has_see s \<and> see_list s' = see_list s"
  by (auto simp: io_step_def unpack2_split_once Let_def add_inputs_header_def
        add_outputs_header_def add_options_header_def split: if_splits)

lemma resolve_ListRef: "resolve s (ListRef k) = UnorderedList (list_of k s)"
  by (cases k) simp_all

lemma io_step_note:
  "io_step p s = Inr s' \<Longrightarrow>
   deprecation_note s' = (if is_deprecated p then Some (deprecation_of p) else deprecation_note s)"
  by (auto simp: io_step_def io_kind_def is_deprecated_def deprecation_of_def unpack2_split_once
        Let_def add_inputs_header_def add_outputs_header_def add_options_header_def
        split: if_splits)

lemma io_loop_note:
  "io_loop ps s = Inr s' \<Longrightarrow>
   deprecation_note s' = (case rev (filter is_deprecated ps) of
                            [] \<Rightarrow> deprecation_note s
                          | p # _ \<Rightarrow> Some (deprecation_of p))"
proof (induction ps arbitrary: s)
  case Nil
  then show ?case by simp
next
  case (Cons p ps)
  from Cons.prems obtain s1 where s1: "io_step p s = Inr s1" and l: "io_loop ps s1 = Inr s'"
    by (auto split: sum.splits)
  show ?case using Cons.IH [OF l] io_step_note [OF s1]
    by (auto split: list.splits)
qed

lemma io_loop_see_fields:
  "io_loop ps s = Inr s' \<Longrightarrow> has_see s' = has_see s \<and> see_list s' = see_list s"
proof (induction ps arbitrary: s)
  case Nil
  then show ?case by simp
next
  case (Cons p ps)
  from Cons.prems obtain s1 where s1: "io_step p s = Inr s1" and l: "io_loop ps s1 = Inr s'"
    by (auto split: sum.splits)
  show ?case using Cons.IH [OF l] io_step_see_fields [OF s1] by simp
qed

lemma filter_part_kind_see: "filter (\<lambda>p. part_kind p = Some SeeList) ps = filter is_see ps"
  by (simp add: part_kind_see)

lemma filter_part_kind_io:
  "k \<noteq> SeeList \<Longrightarrow> filter (\<lambda>p. part_kind p = Some k) ps = filter (\<lambda>p. io_kind p = Some k) ps"
  by (simp add: part_kind_io)

lemma io_kinds_not_See: "SeeList \<notin> set (io_kinds ps)"
  by (induction ps) (auto simp: io_kinds_def map_filter_simps io_kind_not_See split: option.splits)

lemma set_firsts: "set (firsts xs) = set xs"
  by (induction xs) auto

lemma distinct_firsts: "distinct (firsts xs)"
  by (induction xs) (auto simp: set_firsts)

lemma generate_state:
  assumes l: "io_loop parts (add_block img (see_loop parts (init_state descr))) = Inr s3"
  shows "map (resolve (add_block src s3)) (added (add_block src s3)) =
         [Optional (final_note parts), Paragraph (Text descr)]
         @ (if \<exists>p \<in> set parts. is_see p then section_nodes parts SeeList else [])
         @ [img]
         @ concat (map (section_nodes parts) (firsts (io_kinds parts)))
         @ [src]"
proof -
  let ?s1 = "see_loop parts (init_state descr)"
  let ?s2 = "add_block img ?s1"
  let ?s4 = "add_block src s3"
  have a1: "added ?s1 = [NoteRef, Block (Paragraph (Text descr))]
              @ (if \<exists>p \<in> set parts. is_see p then see_blocks else [])"
    by (simp add: see_loop_added init_state_def)
  have flags: "\<And>k. k \<noteq> SeeList \<Longrightarrow> \<not> has k ?s2"
  proof -
    fix k :: list_id assume "k \<noteq> SeeList"
    then show "\<not> has k ?s2"
      using see_loop_others [of parts "init_state descr"]
      by (cases k) (simp_all add: add_block_def init_state_def)
  qed
  have filt: "filter (\<lambda>k. \<not> has k ?s2) (firsts (io_kinds parts)) = firsts (io_kinds parts)"
  proof (rule filter_True, rule ballI)
    fix k assume "k \<in> set (firsts (io_kinds parts))"
    then have "k \<noteq> SeeList" using io_kinds_not_See [of parts] by (auto simp: set_firsts)
    then show "\<not> has k ?s2" by (rule flags)
  qed
  have a3: "added s3 = added ?s2 @ concat (map header_blocks (firsts (io_kinds parts)))"
    using io_loop_added [OF l] filt by simp
  have see4: "see_list ?s4 = map see_item (filter is_see parts)"
    using io_loop_see_fields [OF l]
    by (simp add: add_block_def see_loop_see_list init_state_def)
  have items4: "\<And>k. k \<noteq> SeeList \<Longrightarrow>
      list_of k ?s4 = map (section_item k) (filter (\<lambda>p. io_kind p = Some k) parts)"
  proof -
    fix k :: list_id assume k: "k \<noteq> SeeList"
    have "list_of k ?s2 = []"
      using k see_loop_others [of parts "init_state descr"]
      by (cases k) (simp_all add: add_block_def init_state_def)
    moreover have "list_of k ?s4 = list_of k s3" by (cases k) (simp_all add: add_block_def)
    ultimately show "list_of k ?s4 = map (section_item k) (filter (\<lambda>p. io_kind p = Some k) parts)"
      using io_loop_items [OF l, of k] by simp
  qed
  have n2: "deprecation_note ?s2 = None"
    using see_loop_others [of parts "init_state descr"]
    by (simp add: add_block_def init_state_def)
  have n4: "deprecation_note ?s4 = deprecation_note s3"
    by (simp add: add_block_def)
  have note4: "deprecation_note ?s4 = final_note parts"
    unfolding n4 io_loop_note [OF l] n2 final_note_def by (rule refl)
  have hb: "\<And>k. k \<noteq> SeeList \<Longrightarrow> map (resolve ?s4) (header_blocks k) = section_nodes parts k"
    by (simp add: header_blocks_def section_nodes_def resolve_ListRef items4 filter_part_kind_io)
  have hbs: "\<And>ks. SeeList \<notin> set ks \<Longrightarrow>
      map (resolve ?s4) (concat (map header_blocks ks)) = concat (map (section_nodes parts) ks)"
  proof -
    fix ks :: "list_id list" assume "SeeList \<notin> set ks"
    then show "map (resolve ?s4) (concat (map header_blocks ks)) = concat (map (section_nodes parts) ks)"
      by (induction ks) (auto simp: hb)
  qed
  have sb: "map (resolve ?s4) see_blocks = section_nodes parts SeeList"
    by (simp add: see_blocks_def section_nodes_def see4 filter_part_kind_see)
  have nf: "SeeList \<notin> set (firsts (io_kinds parts))"
    using io_kinds_not_See [of parts] by (simp add: set_firsts)
  have "added ?s4 = [NoteRef, Block (Paragraph (Text descr))]
              @ (if \<exists>p \<in> set parts. is_see p then see_blocks else [])
              @ [Block img] @ concat (map header_blocks (firsts (io_kinds parts))) @ [Block src]"
    using a1 a3 by (simp add: add_block_def)
  then show ?thesis
    using hbs [OF nf] sb note4 by simp
qed

lemma generate_Some:
  assumes "doc (types (nodetype item)) = Some d"
  shows "generate_node_documentation types item cat =
           (if \<exists>p \<in> set (split_on CHR ''@'' d). raises p then Inl ValueError
            else Inr (node_layout item cat (types (nodetype item)) (split_on CHR ''@'' d)))"
proof (cases "\<exists>p \<in> set (split_on CHR ''@'' d). raises p")
  case True
  then show ?thesis
    using assms io_loop_raises [OF True]
    by (simp add: generate_node_documentation_def Let_def)
next
  case False
  then obtain s3 where s3: "io_loop (split_on CHR ''@'' d)
      (add_block (image_block item cat)
         (see_loop (split_on CHR ''@'' d) (init_state (node_description (split_on CHR ''@'' d))))) = Inr s3"
    using io_loop_succeeds by blast
  show ?thesis
    using assms False s3 generate_state [OF s3]
    by (simp add: generate_node_documentation_def Let_def node_layout_def)
qed

lemma generate_None:
  "doc (types (nodetype item)) = None \<Longrightarrow> generate_node_documentation types item cat = Inr []"
  by (simp add: generate_node_documentation_def)

lemma malformed_tag_raises: "malformed_tag p \<Longrightarrow> raises p"
  by (auto simp: malformed_tag_def raises_def startswith_Cons)

lemma error_eq: "(e :: error) = ValueError"
  by (cases e) simp

lemma nodes_loop_Inl:
  "item \<in> set items \<Longrightarrow> generate_node_documentation types item cat = Inl e \<Longrightarrow>
   nodes_loop types cat items document = Inl ValueError"
proof (induction items arbitrary: document)
  case Nil
  then show ?case by simp
next
  case (Cons a items)
  show ?case
  proof (cases "generate_node_documentation types a cat")
    case (Inl e')
    then show ?thesis by (simp add: error_eq [of e'])
  next
    case (Inr blocks)
    with Cons.prems have "item \<in> set items" by auto
    from Cons.IH [OF this Cons.prems(2)] show ?thesis using Inr by simp
  qed
qed

lemma categories_loop_Inl:
  "cat \<in> set cats \<Longrightarrow>
   (\<And>document. nodes_loop types cat (sorted_nodes cat) document = Inl ValueError) \<Longrightarrow>
   categories_loop types cats document = Inl ValueError"
proof (induction cats arbitrary: document)
  case Nil
  then show ?case by simp
next
  case (Cons a cats)
  show ?case
  proof (cases "nodes_loop types a (sorted_nodes a) (document @ category_header a)")
    case (Inl e')
    then show ?thesis by (simp add: error_eq [of e'])
  next
    case (Inr document1)
    with Cons.prems have "cat \<in> set cats" by auto
    from Cons.IH [OF this Cons.prems(2)] show ?thesis using Inr by simp
  qed
qed

lemma node_layout_last: "node_layout item cat cls parts \<noteq> [] \<and> last (node_layout item cat cls parts) = sources_block cls"
  by (simp add: node_layout_def)

lemma sources_block_text:
  "sources_block cls =
     Paragraph (Text (''**Sources:** [Python]('' @ PY_NODE_DIR
        @ join ''/'' (drop 2 (split_on CHR ''.'' (module cls))) @ ''.py) | [Haxe]('' @ HX_NODE_DIR
        @ drop 2 (bl_idname cls) @ ''.hx)''))"
  by (simp add: sources_block_def Let_def)

lemma hd_split_on: "hd (split_on c s) = takeWhile (\<lambda>x. x \<noteq> c) s"
  using split_on_not_Nil by (induction s) (auto split: list.splits)

lemma split_on_no_sep: "c \<notin> set s \<Longrightarrow> split_on c s = [s]"
  by (induction s) auto

lemma split_ws_from_spaces: "\<forall>c \<in> set s. is_space c \<Longrightarrow> split_ws_from [] s = []"
  by (induction s) auto

lemma set_rstrip_chars: "set (rstrip_chars cs s) \<subseteq> set s"
  using set_dropWhileD [of _ "\<lambda>c. c \<in> set cs" "rev s"] by (auto simp: rstrip_chars_def)

lemma node_description_spaces:
  assumes "\<forall>c \<in> set (hd parts). is_space c"
  shows "node_description parts = []"
proof (cases parts)
  case Nil
  then show ?thesis by (simp add: node_description_def)
next
  case (Cons p ps)
  with assms have "\<forall>c \<in> set (rstrip_chars [newline] p). is_space c"
    using set_rstrip_chars [of "[newline]" p] by auto
  then have "split_ws (rstrip_chars [newline] p) = []"
    unfolding split_ws_def by (rule split_ws_from_spaces)
  then show ?thesis using Cons by (simp add: node_description_def remove_char_def)
qed

lemma spaces_not_startswith:
  "\<forall>c \<in> set s. is_space c \<Longrightarrow> \<not> is_space c0 \<Longrightarrow> \<not> startswith s (c0 # p)"
  by (auto simp: startswith_Cons)

lemma spaces_no_tag:
  assumes "\<forall>c \<in> set s. is_space c"
  shows "\<not> is_see s \<and> io_kind s = None \<and> \<not> is_deprecated s \<and> \<not> raises s"
proof -
  have "\<not> startswith s ''seeNode ''" "\<not> startswith s ''see ''" "\<not> startswith s ''input ''"
    "\<not> startswith s ''output ''" "\<not> startswith s ''option ''" "\<not> startswith s ''deprecated ''"
    by (rule spaces_not_startswith [OF assms], simp add: is_space_def)+
  then show ?thesis
    by (simp add: is_see_def io_kind_def is_deprecated_def raises_def)
qed




lemma takeWhile_sep: "c \<notin> set xs \<Longrightarrow> takeWhile (\<lambda>x. x \<noteq> c) (xs @ c # ys) = xs"
  by (induction xs) auto

lemma dropWhile_sep: "c \<notin> set xs \<Longrightarrow> dropWhile (\<lambda>x. x \<noteq> c) (xs @ c # ys) = c # ys"
  by (induction xs) auto

lemma io_step_deprecated:
  assumes "CHR '':'' \<notin> set alternatives"
  shows "io_step (''deprecated '' @ alternatives @ '':'' @ message) s
         = Inr (s\<lparr> deprecation_note := Some (deprecation_quote alternatives message) \<rparr>)"
proof -
  let ?part = "''deprecated '' @ alternatives @ '':'' @ message"
  have p: "\<not> startswith ?part ''input ''" "\<not> startswith ?part ''output ''"
    "\<not> startswith ?part ''option ''" "startswith ?part ''deprecated ''"
    by (simp_all add: startswith_Cons startswith_Nil)
  have dr: "drop 11 ?part = alternatives @ CHR '':'' # message" by simp
  show ?thesis
    unfolding io_step_def using p assms
    by (simp only: dr if_False if_True unpack2_split_once) (simp add: takeWhile_sep dropWhile_sep)
qed

lemma nodes_loop_Inr:
  "nodes_loop types cat items document = Inr document' \<Longrightarrow>
   document' = document
     @ concat (map (\<lambda>item. Header 3 (label item) # node_blocks types cat item) items)"
proof (induction items arbitrary: document)
  case Nil
  then show ?case by simp
next
  case (Cons item items)
  from Cons.prems obtain blocks where b: "generate_node_documentation types item cat = Inr blocks"
    and l: "nodes_loop types cat items (document @ [Header 3 (label item)] @ blocks) = Inr document'"
    by (auto split: sum.splits)
  show ?case using Cons.IH [OF l] b by (simp add: node_blocks_def)
qed

lemma nodes_loop_extends:
  "nodes_loop types cat items document = Inr document' \<Longrightarrow> \<exists>ext. document' = document @ ext"
  using nodes_loop_Inr by blast

lemma categories_loop_extends:
  "categories_loop types cats document = Inr document' \<Longrightarrow> \<exists>ext. document' = document @ ext"
proof (induction cats arbitrary: document)
  case Nil
  then show ?case by simp
next
  case (Cons cat cats)
  from Cons.prems obtain d1 where
    n: "nodes_loop types cat (sorted_nodes cat) (document @ category_header cat) = Inr d1"
    and c: "categories_loop types cats d1 = Inr document'"
    by (auto split: sum.splits)
  from nodes_loop_extends [OF n] obtain e1 where "d1 = (document @ category_header cat) @ e1" by blast
  moreover from Cons.IH [OF c] obtain e2 where "document' = d1 @ e2" by blast
  ultimately show ?case by simp
qed

lemma sorted_nodes_empty: "all_nodes cat = [] \<Longrightarrow> deprecated_nodes cat = [] \<Longrightarrow> sorted_nodes cat = []"
  by (simp add: sorted_nodes_def)

lemma categories_loop_empty_category:
  assumes "all_nodes cat = []" "deprecated_nodes cat = []"
  shows "categories_loop types (cat # cats) document
         = categories_loop types cats (document @ category_header cat)"
  using assms by (simp add: sorted_nodes_empty)

lemma categories_loop_header:
  assumes "categories_loop types cats document = Inr document'" "cat \<in> set cats"
    "all_nodes cat = []" "deprecated_nodes cat = []"
  shows "\<exists>pre post. document' = pre @ category_header cat @ post"
  using assms(1,2)
proof (induction cats arbitrary: document)
  case Nil
  then show ?case by simp
next
  case (Cons a cats)
  from Cons.prems(1) obtain d1 where
    n: "nodes_loop types a (sorted_nodes a) (document @ category_header a) = Inr d1"
    and c: "categories_loop types cats d1 = Inr document'"
    by (auto split: sum.splits)
  show ?case
  proof (cases "a = cat")
    case True
    then have "d1 = document @ category_header cat"
      using n assms(3,4) by (simp add: sorted_nodes_empty)
    moreover from categories_loop_extends [OF c] obtain e where "document' = d1 @ e" by blast
    ultimately have "document' = document @ category_header cat @ e" by simp
    then show ?thesis by blast
  next
    case False
    with Cons.prems(2) have "cat \<in> set cats" by simp
    from Cons.IH [OF c this] show ?thesis .
  qed
qed

lemma section_header_inj: "section_header k = section_header j \<longleftrightarrow> k = j"
  by (cases k; cases j) (simp_all add: section_header_def)

lemma list_not_header: "UnorderedList xs \<noteq> section_header k"
  by (simp add: section_header_def)

lemma filter_section_nodes:
  "filter (\<lambda>b. b = section_header k) (section_nodes parts j)
     = (if j = k then [section_header k] else [])"
  by (simp add: section_nodes_def section_header_inj list_not_header)

lemma count_headers_concat:
  "distinct ks \<Longrightarrow>
   length (filter (\<lambda>b. b = section_header k) (concat (map (section_nodes parts) ks)))
     = (if k \<in> set ks then 1 else 0)"
  by (induction ks) (auto simp: filter_section_nodes)

lemma set_io_kinds: "set (io_kinds ps) = {k. \<exists>p \<in> set ps. io_kind p = Some k}"
  by (induction ps) (auto simp: io_kinds_def map_filter_simps split: option.splits)

lemma image_block_not_header: "image_block item cat \<noteq> section_header k"
  by (simp add: image_block_def section_header_def)

lemma sources_block_not_header: "sources_block cls \<noteq> section_header k"
  by (simp add: sources_block_def section_header_def Let_def)

lemma part_kind_exists:
  "(\<exists>p \<in> set ps. part_kind p = Some k)
     \<longleftrightarrow> (if k = SeeList then \<exists>p \<in> set ps. is_see p else k \<in> set (firsts (io_kinds ps)))"
  by (auto simp: part_kind_see part_kind_io set_firsts set_io_kinds)

lemma count_headers_layout:
  "length (filter (\<lambda>b. b = section_header k) (node_layout item cat cls parts))
     = (if \<exists>p \<in> set parts. part_kind p = Some k then 1 else 0)"
proof -
  have c: "length (filter (\<lambda>b. b = section_header k)
              (concat (map (section_nodes parts) (firsts (io_kinds parts)))))
           = (if k \<in> set (firsts (io_kinds parts)) then 1 else 0)"
    by (rule count_headers_concat) (rule distinct_firsts)
  have ns: "SeeList \<notin> set (firsts (io_kinds parts))"
    using io_kinds_not_See [of parts] by (simp add: set_firsts)
  have fixed: "Optional (final_note parts) \<noteq> section_header k"
    "Paragraph (Text (node_description parts)) \<noteq> section_header k"
    by (simp_all add: section_header_def)
  show ?thesis
  proof (cases "k = SeeList")
    case True
    then show ?thesis
      using c ns fixed image_block_not_header [of item cat k] sources_block_not_header [of cls k]
      by (simp add: node_layout_def part_kind_exists filter_section_nodes)
  next
    case False
    then show ?thesis
      using c fixed image_block_not_header [of item cat k] sources_block_not_header [of cls k]
      by (simp add: node_layout_def part_kind_exists filter_section_nodes)
  qed
qed

lemma section_in_layout:
  assumes "\<exists>p \<in> set parts. part_kind p = Some k"
  shows "\<exists>pre post. node_layout item cat cls parts = pre @ section_nodes parts k @ post"
proof (cases "k = SeeList")
  case True
  with assms have "\<exists>p \<in> set parts. is_see p" by (simp add: part_kind_exists)
  then have "node_layout item cat cls parts =
      [Optional (final_note parts), Paragraph (Text (node_description parts))]
      @ section_nodes parts k
      @ ([image_block item cat]
         @ concat (map (section_nodes parts) (firsts (io_kinds parts))) @ [sources_block cls])"
    using True by (simp add: node_layout_def)
  then show ?thesis by blast
next
  case False
  with assms have "k \<in> set (firsts (io_kinds parts))" by (simp add: part_kind_exists)
  then obtain ks1 ks2 where ks: "firsts (io_kinds parts) = ks1 @ k # ks2"
    by (auto dest: split_list)
  have "node_layout item cat cls parts =
      ([Optional (final_note parts), Paragraph (Text (node_description parts))]
       @ (if \<exists>p \<in> set parts. is_see p then section_nodes parts SeeList else [])
       @ [image_block item cat] @ concat (map (section_nodes parts) ks1))
      @ section_nodes parts k
      @ (concat (map (section_nodes parts) ks2) @ [sources_block cls])"
    by (simp add: node_layout_def ks)
  then show ?thesis by blast
qed

lemma first_tag_see:
  assumes p: "is_see p" and pre: "\<forall>q \<in> set pre. \<not> is_see q"
  shows "Block (section_header SeeList) \<notin> set (added (see_loop pre (init_state descr)))
         \<and> added (see_step p (see_loop pre (init_state descr)))
             = added (see_loop pre (init_state descr)) @ [Block (section_header SeeList), ListRef SeeList]"
proof -
  let ?sa = "see_loop pre (init_state descr)"
  have a: "added ?sa = [NoteRef, Block (Paragraph (Text descr))]"
    using pre by (simp add: see_loop_added init_state_def)
  have h: "\<not> has_see ?sa"
    using pre by (simp add: see_loop_has_see init_state_def)
  have "added (see_step p ?sa) = added ?sa @ [Block (section_header SeeList), ListRef SeeList]"
    using h by (simp add: see_step_see [OF p] add_see_header_def section_header_def)
  then show ?thesis using a by (simp add: section_header_def)
qed

lemma header_not_in_blocks:
  "k \<notin> set ks \<Longrightarrow> Block (section_header k) \<notin> set (concat (map header_blocks ks))"
  by (induction ks) (auto simp: header_blocks_def section_header_inj)

lemma first_tag_io:
  assumes ok: "\<forall>q \<in> set (pre @ [p]). \<not> raises q"
    and k: "io_kind p = Some k"
    and nk: "\<forall>q \<in> set pre. io_kind q \<noteq> Some k"
  shows "\<exists>sa sb. io_loop pre (add_block (image_block item cat) (see_loop parts (init_state descr))) = Inr sa
           \<and> io_step p sa = Inr sb
           \<and> Block (section_header k) \<notin> set (added sa)
           \<and> added sb = added sa @ [Block (section_header k), ListRef k]"
proof -
  let ?s1 = "see_loop parts (init_state descr)"
  let ?s2 = "add_block (image_block item cat) ?s1"
  have kn: "k \<noteq> SeeList" using k io_kind_not_See [of p] by auto
  from ok have "\<forall>q \<in> set pre. \<not> raises q" by simp
  then obtain sa where sa: "io_loop pre ?s2 = Inr sa" using io_loop_succeeds by blast
  from ok have "\<not> raises p" by simp
  then obtain sb where sb: "io_step p sa = Inr sb" using io_step_Inr_iff by blast
  have h2: "\<not> has k ?s2"
    using kn see_loop_others [of parts "init_state descr"]
    by (cases k) (simp_all add: add_block_def init_state_def)
  have ha: "\<not> has k sa"
    using io_loop_has [OF sa, of k] h2 nk by simp
  have asb: "added sb = added sa @ [Block (section_header k), ListRef k]"
    using io_step_added [OF sb] k ha by (simp add: header_blocks_def)
  have a2: "Block (section_header k) \<notin> set (added ?s2)"
    using kn image_block_not_header [of item cat k]
    by (auto simp: add_block_def see_loop_added init_state_def see_blocks_def section_header_inj)
       (simp_all add: section_header_def)
  have "k \<notin> set (filter (\<lambda>j. \<not> has j ?s2) (firsts (io_kinds pre)))"
    using nk by (simp add: set_firsts set_io_kinds)
  then have "Block (section_header k)
      \<notin> set (concat (map header_blocks (filter (\<lambda>j. \<not> has j ?s2) (firsts (io_kinds pre)))))"
    by (rule header_not_in_blocks)
  then have asa: "Block (section_header k) \<notin> set (added sa)"
    using io_loop_added [OF sa] a2 by simp
  from sa sb asa asb show ?thesis by blast
qed

lemma first_tag_created:
  assumes ok: "\<forall>q \<in> set (pre @ [p]). \<not> raises q"
    and k: "part_kind p = Some k"
    and nk: "\<forall>q \<in> set pre. part_kind q \<noteq> Some k"
  shows "\<exists>sa sb. state_before item cat parts k pre = Inr sa \<and> step_of k p sa = Inr sb
           \<and> Block (section_header k) \<notin> set (added sa)
           \<and> added sb = added sa @ [Block (section_header k), ListRef k]"
proof (cases "k = SeeList")
  case True
  have p: "is_see p" using k True by (simp add: part_kind_see)
  have pre: "\<forall>q \<in> set pre. \<not> is_see q" using nk True by (simp add: part_kind_see)
  show ?thesis
    using first_tag_see [OF p pre, of "node_description parts"] True
    by (simp add: state_before_def step_of_def)
next
  case False
  have p: "io_kind p = Some k" using k False by (simp add: part_kind_io)
  have pre: "\<forall>q \<in> set pre. io_kind q \<noteq> Some k" using nk False by (simp add: part_kind_io)
  show ?thesis
    using first_tag_io [OF ok p pre, of item cat parts "node_description parts"] False
    by (simp add: state_before_def step_of_def)
qed

text \<open>
  What the two loops do with the fragments they classify, for a call that returns: each
  kind of section has its header once if a fragment of the kind exists and not at all
  otherwise; the header is followed by the list, one item for each fragment of the kind in
  the order of the text; the header is appended by the step on the first fragment of the
  kind. The fragments are all the elements of \<open>doc.split("@")\<close>, the first one included.
\<close>

lemma sections_of_classified_fragments:
  assumes d: "doc (types (nodetype item)) = Some d"
    and g: "generate_node_documentation types item cat = Inr blocks"
  shows "length (filter (\<lambda>b. b = section_header k) blocks)
           = (if \<exists>p \<in> set (split_on CHR ''@'' d). part_kind p = Some k then 1 else 0)
         \<and> ((\<exists>p \<in> set (split_on CHR ''@'' d). part_kind p = Some k) \<longrightarrow>
              (\<exists>pre post. blocks = pre
                 @ [section_header k,
                    UnorderedList (map (section_item k)
                      (filter (\<lambda>p. part_kind p = Some k) (split_on CHR ''@'' d)))]
                 @ post))
         \<and> (\<forall>pre p post. split_on CHR ''@'' d = pre @ p # post \<and> part_kind p = Some k
                \<and> (\<forall>q \<in> set pre. part_kind q \<noteq> Some k) \<longrightarrow>
              (\<exists>sa sb. state_before item cat (split_on CHR ''@'' d) k pre = Inr sa
                 \<and> step_of k p sa = Inr sb
                 \<and> Block (section_header k) \<notin> set (added sa)
                 \<and> added sb = added sa @ [Block (section_header k), ListRef k]))"
proof -
  let ?parts = "split_on CHR ''@'' d"
  note G = generate_Some [where types = types and item = item and cat = cat, OF d]
  have ok: "\<forall>p \<in> set ?parts. \<not> raises p"
    using G g by (auto split: if_splits)
  have b: "blocks = node_layout item cat (types (nodetype item)) ?parts"
    using G g by (simp split: if_splits)
  have c1: "length (filter (\<lambda>b. b = section_header k) blocks)
           = (if \<exists>p \<in> set ?parts. part_kind p = Some k then 1 else 0)"
    unfolding b by (rule count_headers_layout)
  have c2: "(\<exists>p \<in> set ?parts. part_kind p = Some k) \<longrightarrow>
              (\<exists>pre post. blocks = pre
                 @ [section_header k,
                    UnorderedList (map (section_item k) (filter (\<lambda>p. part_kind p = Some k) ?parts))]
                 @ post)"
    unfolding b using section_in_layout [of ?parts k item cat "types (nodetype item)"]
    by (simp add: section_nodes_def)
  have c3: "\<forall>pre p post. ?parts = pre @ p # post \<and> part_kind p = Some k
                \<and> (\<forall>q \<in> set pre. part_kind q \<noteq> Some k) \<longrightarrow>
              (\<exists>sa sb. state_before item cat ?parts k pre = Inr sa
                 \<and> step_of k p sa = Inr sb
                 \<and> Block (section_header k) \<notin> set (added sa)
                 \<and> added sb = added sa @ [Block (section_header k), ListRef k])"
  proof (intro allI impI)
    fix pre p post
    assume h: "?parts = pre @ p # post \<and> part_kind p = Some k
                \<and> (\<forall>q \<in> set pre. part_kind q \<noteq> Some k)"
    then have "\<forall>q \<in> set (pre @ [p]). \<not> raises q" using ok by auto
    from first_tag_created [OF this, of k item cat ?parts] h
    show "\<exists>sa sb. state_before item cat ?parts k pre = Inr sa
                 \<and> step_of k p sa = Inr sb
                 \<and> Block (section_header k) \<notin> set (added sa)
                 \<and> added sb = added sa @ [Block (section_header k), ListRef k]"
      by blast
  qed
  from c1 c2 c3 show ?thesis by blast
qed

lemma not_tag:
  "\<not> is_tag p \<Longrightarrow> \<not> is_see p \<and> io_kind p = None \<and> \<not> is_deprecated p \<and> \<not> raises p"
  by (auto simp: is_tag_def is_deprecated_def raises_def io_kind_def split: if_splits)

lemma no_tags_io_kinds: "\<forall>p \<in> set ps. \<not> is_tag p \<Longrightarrow> io_kinds ps = []"
  by (induction ps) (auto simp: io_kinds_def map_filter_simps dest: not_tag)

lemma no_tags_layout:
  assumes "\<forall>p \<in> set ps. \<not> is_tag p"
  shows "node_layout item cat cls ps =
           [Optional None, Paragraph (Text (node_description ps)), image_block item cat,
            sources_block cls]"
proof -
  have s: "\<not> (\<exists>p \<in> set ps. is_see p)" using assms not_tag by blast
  have f: "filter is_deprecated ps = []" using assms not_tag by (auto simp: filter_empty_conv)
  show ?thesis
    using s f no_tags_io_kinds [OF assms] by (simp add: node_layout_def final_note_def)
qed

lemma spaces_not_tag: "\<forall>c \<in> set s. is_space c \<Longrightarrow> \<not> is_tag s"
proof -
  assume a: "\<forall>c \<in> set s. is_space c"
  have "\<not> startswith s ''deprecated ''"
    by (rule spaces_not_startswith [OF a]) (simp add: is_space_def)
  then show ?thesis using spaces_no_tag [OF a] by (simp add: is_tag_def)
qed

lemma nodes_loop_generate:
  "nodes_loop types cat items document = Inr document' \<Longrightarrow>
   \<forall>item \<in> set items.
     generate_node_documentation types item cat = Inr (node_blocks types cat item)"
proof (induction items arbitrary: document)
  case Nil
  then show ?case by simp
next
  case (Cons item items)
  from Cons.prems obtain blocks where b: "generate_node_documentation types item cat = Inr blocks"
    and l: "nodes_loop types cat items (document @ [Header 3 (label item)] @ blocks) = Inr document'"
    by (auto split: sum.splits)
  have nb: "node_blocks types cat item = blocks" using b by (simp add: node_blocks_def)
  show ?case using Cons.IH [OF l] b nb by simp
qed

lemma categories_loop_Inr:
  "categories_loop types cats document = Inr document' \<Longrightarrow>
   document' = document @ concat (map (category_blocks types) cats)
   \<and> (\<forall>cat \<in> set cats. \<forall>item \<in> set (sorted_nodes cat).
         generate_node_documentation types item cat = Inr (node_blocks types cat item))"
proof (induction cats arbitrary: document)
  case Nil
  then show ?case by simp
next
  case (Cons cat cats)
  from Cons.prems obtain d1 where
    n: "nodes_loop types cat (sorted_nodes cat) (document @ category_header cat) = Inr d1"
    and c: "categories_loop types cats d1 = Inr document'"
    by (auto split: sum.splits)
  have d1: "d1 = document @ category_blocks types cat"
    using nodes_loop_Inr [OF n] by (simp add: category_blocks_def)
  from Cons.IH [OF c] have e: "document' = d1 @ concat (map (category_blocks types) cats)"
    and f: "\<forall>cat \<in> set cats. \<forall>item \<in> set (sorted_nodes cat).
         generate_node_documentation types item cat = Inr (node_blocks types cat item)"
    by blast+
  have g: "document' = document @ concat (map (category_blocks types) (cat # cats))"
    unfolding e d1 by simp
  have h: "\<forall>c \<in> set (cat # cats). \<forall>item \<in> set (sorted_nodes c).
         generate_node_documentation types item c = Inr (node_blocks types c item)"
    using f nodes_loop_generate [OF n] by simp
  from g h show ?case by (rule conjI)
qed

lemma run_Inr:
  assumes "run reg = Inr document"
  shows "document = intro_blocks (arm_version reg)
           @ [Header 2 ''Node Categories'',
              UnorderedList (listing_items (title_case reg) (category_items reg))]
           @ concat (map (category_blocks (get_nodetype reg)) (all_categories reg))"
    and "\<forall>cat \<in> set (all_categories reg). \<forall>item \<in> set (sorted_nodes cat).
           generate_node_documentation (get_nodetype reg) item cat
             = Inr (node_blocks (get_nodetype reg) cat item)"
proof -
  have c: "categories_loop (get_nodetype reg) (all_categories reg)
             (intro_blocks (arm_version reg)
              @ [Header 2 ''Node Categories'',
                 UnorderedList (listing_items (title_case reg) (category_items reg))]) = Inr document"
    using assms unfolding run_def Let_def .
  note R = categories_loop_Inr [OF c]
  from R show "document = intro_blocks (arm_version reg)
           @ [Header 2 ''Node Categories'',
              UnorderedList (listing_items (title_case reg) (category_items reg))]
           @ concat (map (category_blocks (get_nodetype reg)) (all_categories reg))"
    by simp
  from R show "\<forall>cat \<in> set (all_categories reg). \<forall>item \<in> set (sorted_nodes cat).
           generate_node_documentation (get_nodetype reg) item cat
             = Inr (node_blocks (get_nodetype reg) cat item)"
    by (rule conjunct2)
qed

lemma sorted_nodes_stable:
  "filter (\<lambda>n. label n = l) (sorted_nodes cat)
     = filter (\<lambda>n. label n = l) (all_nodes cat @ deprecated_nodes cat)"
  unfolding sorted_nodes_def by (rule sort_key_stable)

lemma listing_items_eq:
  "listing_items tc sections =
     concat (map (\<lambda>(sec, cats).
                    [Span (Bold (Text (capitalize tc sec))),
                     UnorderedList (map (\<lambda>c. Span (Link (Text (name c)) (get_anchor (name c)))) cats)])
                 (filter (\<lambda>(sec, cats). cats \<noteq> []) sections))"
  by (induction tc sections rule: listing_items.induct) auto

lemma startswith_append: "startswith (p @ s) p"
  by (simp add: startswith_def)






section \<open>Claims\<close>

text \<open>
  C1 (as amended). A socket or option tag whose payload has no colon is not skipped:
  unpacking the split raises \<open>ValueError\<close>, nothing catches it, so the call for the node
  ends with the exception and so does the run, before any document is written.
\<close>

theorem malformed_tag_aborts:
  assumes cat: "cat \<in> set (all_categories reg)"
    and item: "item \<in> set (all_nodes cat @ deprecated_nodes cat)"
    and d: "doc (get_nodetype reg (nodetype item)) = Some d"
    and part: "part \<in> set (split_on CHR ''@'' d)"
    and bad: "malformed_tag part"
  shows "generate_node_documentation (get_nodetype reg) item cat = Inl ValueError
         \<and> run reg = Inl ValueError"
proof -
  have ex: "\<exists>p \<in> set (split_on CHR ''@'' d). raises p"
    using part malformed_tag_raises [OF bad] by blast
  have g: "generate_node_documentation (get_nodetype reg) item cat = Inl ValueError"
    using generate_Some [where types = "get_nodetype reg" and item = item and cat = cat, OF d] ex
    by simp
  have "item \<in> set (sorted_nodes cat)" using item by (simp add: sorted_nodes_def)
  then have "\<And>document. nodes_loop (get_nodetype reg) cat (sorted_nodes cat) document = Inl ValueError"
    using g by (rule nodes_loop_Inl)
  with cat have "\<And>document. categories_loop (get_nodetype reg) (all_categories reg) document = Inl ValueError"
    by (rule categories_loop_Inl)
  then show ?thesis using g by (simp add: run_def)
qed

text \<open>The hypotheses of C1 hold for a node documented as \<open>Adds.@input a@output b: sum\<close>.\<close>

theorem malformed_tag_aborts_witness:
  "malformed_tag ''input a''
   \<and> run \<lparr> category_items = [(''logic'', [\<lparr> name = ''Math'', description = '''',
                all_nodes = [\<lparr> nodetype = ''LNAddNode'', label = ''Add'' \<rparr>], deprecated_nodes = [] \<rparr>])],
            all_categories = [\<lparr> name = ''Math'', description = '''',
                all_nodes = [\<lparr> nodetype = ''LNAddNode'', label = ''Add'' \<rparr>], deprecated_nodes = [] \<rparr>],
            get_nodetype = (\<lambda>_. \<lparr> doc = Some ''Adds.@input a@output b: sum'',
                module = ''arm.logicnode.math.LN_add'', bl_idname = ''LNAddNode'' \<rparr>),
            arm_version = ''1.0'',
            title_case = (\<lambda>c. if c = CHR ''l'' then ''L'' else [c]) \<rparr> = Inl ValueError"
proof -
  let ?item = "\<lparr> nodetype = ''LNAddNode'', label = ''Add'' \<rparr>"
  let ?cat = "\<lparr> name = ''Math'', description = '''', all_nodes = [?item], deprecated_nodes = [] \<rparr>"
  let ?reg = "\<lparr> category_items = [(''logic'', [?cat])], all_categories = [?cat],
            get_nodetype = (\<lambda>_. \<lparr> doc = Some ''Adds.@input a@output b: sum'',
                module = ''arm.logicnode.math.LN_add'', bl_idname = ''LNAddNode'' \<rparr>),
            arm_version = ''1.0'',
            title_case = (\<lambda>c. if c = CHR ''l'' then ''L'' else [c]) \<rparr>"
  have m: "malformed_tag ''input a''" by (simp add: malformed_tag_def startswith_def)
  have p: "''input a'' \<in> set (split_on CHR ''@'' ''Adds.@input a@output b: sum'')" by simp
  have "generate_node_documentation (get_nodetype ?reg) ?item ?cat = Inl ValueError
         \<and> run ?reg = Inl ValueError"
    by (rule malformed_tag_aborts [where d = "''Adds.@input a@output b: sum''" and part = "''input a''"])
       (simp_all add: m)
  then show ?thesis using m by simp
qed

text \<open>
  C1 as stated fails: with the tag \<open>input a\<close> the run ends with the exception, although the
  next tag of the same docstring is well formed.
\<close>

theorem malformed_tag_counterexample:
  "run \<lparr> category_items = [(''logic'', [\<lparr> name = ''Math'', description = '''',
                all_nodes = [\<lparr> nodetype = ''LNAddNode'', label = ''Add'' \<rparr>], deprecated_nodes = [] \<rparr>])],
          all_categories = [\<lparr> name = ''Math'', description = '''',
                all_nodes = [\<lparr> nodetype = ''LNAddNode'', label = ''Add'' \<rparr>], deprecated_nodes = [] \<rparr>],
          get_nodetype = (\<lambda>_. \<lparr> doc = Some ''Adds.@input a@output b: sum'',
                module = ''arm.logicnode.math.LN_add'', bl_idname = ''LNAddNode'' \<rparr>),
          arm_version = ''1.0'',
            title_case = (\<lambda>c. if c = CHR ''l'' then ''L'' else [c]) \<rparr> = Inl ValueError"
  by code_simp

text \<open>
  C2 (as amended). When the docstring of a node is absent the call adds nothing and raises
  nothing: after the header that \<open>run\<close> adds for the node there is no image, no description,
  no section and no sources paragraph.
\<close>

theorem absent_docstring_header_only:
  assumes "doc (types (nodetype item)) = None"
  shows "generate_node_documentation types item cat = Inr []
         \<and> nodes_loop types cat [item] document = Inr (document @ [Header 3 (label item)])"
  using assms by (simp add: generate_node_documentation_def)

text \<open>The hypothesis of C2 holds for a class whose \<open>__doc__\<close> is \<open>None\<close>.\<close>

theorem absent_docstring_header_only_witness:
  "doc ((\<lambda>_. \<lparr> doc = None, module = ''arm.logicnode.math.LN_add'', bl_idname = ''LNAddNode'' \<rparr>)
          (nodetype \<lparr> nodetype = ''LNAddNode'', label = ''Add'' \<rparr>)) = None
   \<and> nodes_loop (\<lambda>_. \<lparr> doc = None, module = ''arm.logicnode.math.LN_add'', bl_idname = ''LNAddNode'' \<rparr>)
        \<lparr> name = ''Math'', description = '''', all_nodes = [], deprecated_nodes = [] \<rparr>
        [\<lparr> nodetype = ''LNAddNode'', label = ''Add'' \<rparr>] [Header 2 ''Math'']
      = Inr [Header 2 ''Math'', Header 3 ''Add'']"
  using absent_docstring_header_only
    [where types = "\<lambda>_. \<lparr> doc = None, module = ''arm.logicnode.math.LN_add'', bl_idname = ''LNAddNode'' \<rparr>"
       and item = "\<lparr> nodetype = ''LNAddNode'', label = ''Add'' \<rparr>"
       and cat = "\<lparr> name = ''Math'', description = '''', all_nodes = [], deprecated_nodes = [] \<rparr>"
       and document = "[Header 2 ''Math'']"]
  by simp

text \<open>
  C2 as stated fails: for a node without docstring the subtree is the header alone, the
  image block is not in it.
\<close>

theorem absent_docstring_counterexample:
  "nodes_loop (\<lambda>_. \<lparr> doc = None, module = ''arm.logicnode.math.LN_add'', bl_idname = ''LNAddNode'' \<rparr>)
        \<lparr> name = ''Math'', description = '''', all_nodes = [], deprecated_nodes = [] \<rparr>
        [\<lparr> nodetype = ''LNAddNode'', label = ''Add'' \<rparr>] []
     = Inr [Header 3 ''Add'']
   \<and> image_block \<lparr> nodetype = ''LNAddNode'', label = ''Add'' \<rparr>
         \<lparr> name = ''Math'', description = '''', all_nodes = [], deprecated_nodes = [] \<rparr>
       \<notin> set [Header 3 ''Add'']"
  by (simp add: generate_node_documentation_def image_block_def)




text \<open>
  C4 fails on the code: the second loop goes through every fragment, the text before the
  first \<open>@\<close> included. The docstring \<open>input x: 1@input a: 2@input b: 3\<close> has two input tags;
  the section of the inputs has three items, the first one made from the description.
\<close>

theorem leading_fragment_counted:
  "generate_node_documentation
     (\<lambda>_. \<lparr> doc = Some ''input x: 1@input a: 2@input b: 3'',
            module = ''arm.logicnode.math.LN_add'', bl_idname = ''LNAddNode'' \<rparr>)
     \<lparr> nodetype = ''LNAddNode'', label = ''Add'' \<rparr>
     \<lparr> name = ''Math'', description = '''', all_nodes = [], deprecated_nodes = [] \<rparr>
   = Inr [Optional None, Paragraph (Text ''input x: 1''),
          Image ''https://github.com/armory3d/armory_wiki_images/raw/master/logic_nodes/math/LNAddNode.jpg'' ''Add node'',
          Paragraph (Bold (Text ''Inputs:'')),
          UnorderedList [Span (Text ''`x`: 1''), Span (Text ''`a`: 2''), Span (Text ''`b`: 3'')],
          Paragraph (Text ''**Sources:** [Python](https://github.com/armory3d/armory/blob/master/blender/arm/logicnode/math/LN_add.py) | [Haxe](https://github.com/armory3d/armory/blob/master/Sources/armory/logicnode/AddNode.hx)'')]"
  by code_simp

text \<open>
  C5 (as amended). When the text before the first \<open>@\<close> is empty or all whitespace, the
  description paragraph is still added, with the empty text, right after the deprecation
  slot. If moreover the docstring has no tag, that is no fragment after an \<open>@\<close> starts with
  one of the six prefixes (no \<open>@\<close> at all, \<open>@\<close> alone, or only unknown fragments), the call
  adds the empty slot, the empty paragraph, the image and the sources paragraph, and
  nothing else.
\<close>

theorem empty_description_paragraph:
  assumes d: "doc (types (nodetype item)) = Some d"
    and ws: "\<forall>c \<in> set (takeWhile (\<lambda>c. c \<noteq> CHR ''@'') d). is_space c"
  shows "(\<forall>blocks. generate_node_documentation types item cat = Inr blocks \<longrightarrow>
            (\<exists>note rest. blocks = Optional note # Paragraph (Text []) # rest))
         \<and> ((\<forall>p \<in> set (tl (split_on CHR ''@'' d)). \<not> is_tag p) \<longrightarrow>
              generate_node_documentation types item cat =
                Inr [Optional None, Paragraph (Text []), image_block item cat,
                     sources_block (types (nodetype item))])"
proof -
  let ?parts = "split_on CHR ''@'' d"
  note G = generate_Some [where types = types and item = item and cat = cat, OF d]
  have hdws: "\<forall>c \<in> set (hd ?parts). is_space c" using ws by (simp add: hd_split_on)
  have nd: "node_description ?parts = []"
    using hdws by (rule node_description_spaces)
  have first: "\<forall>blocks. generate_node_documentation types item cat = Inr blocks \<longrightarrow>
            (\<exists>note rest. blocks = Optional note # Paragraph (Text []) # rest)"
    using G nd by (auto simp: node_layout_def split: if_splits)
  have second: "generate_node_documentation types item cat =
                Inr [Optional None, Paragraph (Text []), image_block item cat,
                     sources_block (types (nodetype item))]"
    if no: "\<forall>p \<in> set (tl ?parts). \<not> is_tag p"
  proof -
    have parts: "?parts = hd ?parts # tl ?parts" using split_on_not_Nil [of "CHR ''@''" d] by simp
    have "\<not> is_tag (hd ?parts)" using hdws by (rule spaces_not_tag)
    with no have all: "\<forall>p \<in> set ?parts. \<not> is_tag p"
      by (subst parts) simp
    then have nr: "\<not> (\<exists>p \<in> set ?parts. raises p)" using not_tag by blast
    show ?thesis using G nr no_tags_layout [OF all] nd by simp
  qed
  from first second show ?thesis by blast
qed

text \<open>
  The hypotheses of C5 hold for the docstring \<open> @foo bar\<close>: a description of one space and
  one fragment that is no tag.
\<close>

theorem empty_description_paragraph_witness:
  "list_all is_space (takeWhile (\<lambda>c. c \<noteq> CHR ''@'') '' @foo bar'')
   \<and> list_all (\<lambda>p. \<not> is_tag p) (tl (split_on CHR ''@'' '' @foo bar''))
   \<and> generate_node_documentation
       (\<lambda>_. \<lparr> doc = Some '' @foo bar'', module = ''arm.logicnode.math.LN_add'', bl_idname = ''LNAddNode'' \<rparr>)
       \<lparr> nodetype = ''LNAddNode'', label = ''Add'' \<rparr>
       \<lparr> name = ''Math'', description = '''', all_nodes = [], deprecated_nodes = [] \<rparr>
     = Inr [Optional None, Paragraph (Text []),
            image_block \<lparr> nodetype = ''LNAddNode'', label = ''Add'' \<rparr>
              \<lparr> name = ''Math'', description = '''', all_nodes = [], deprecated_nodes = [] \<rparr>,
            sources_block \<lparr> doc = Some '' @foo bar'', module = ''arm.logicnode.math.LN_add'', bl_idname = ''LNAddNode'' \<rparr>]"
proof -
  let ?types = "\<lambda>_ :: string. \<lparr> doc = Some '' @foo bar'', module = ''arm.logicnode.math.LN_add'', bl_idname = ''LNAddNode'' \<rparr>"
  let ?item = "\<lparr> nodetype = ''LNAddNode'', label = ''Add'' \<rparr>"
  let ?cat = "\<lparr> name = ''Math'', description = '''', all_nodes = [], deprecated_nodes = [] \<rparr>"
  have d: "doc (?types (nodetype ?item)) = Some '' @foo bar''" by simp
  have ws: "\<forall>c \<in> set (takeWhile (\<lambda>c. c \<noteq> CHR ''@'') '' @foo bar''). is_space c"
    by (simp add: is_space_def)
  have nt: "\<not> is_tag ''foo bar''" by code_simp
  have no: "\<forall>p \<in> set (tl (split_on CHR ''@'' '' @foo bar'')). \<not> is_tag p"
    using nt by simp
  from empty_description_paragraph [where types = ?types and item = ?item and cat = ?cat, OF d ws] no
  have "generate_node_documentation ?types ?item ?cat =
          Inr [Optional None, Paragraph (Text []), image_block ?item ?cat,
               sources_block (?types (nodetype ?item))]"
    by blast
  then show ?thesis using nt by (simp add: is_space_def)
qed

text \<open>
  C5 as stated fails: the docstring \<open>@\<close> has no tag and an empty description, and the call
  adds the deprecation slot and a paragraph with the empty text before the image.
\<close>

theorem empty_description_counterexample:
  "generate_node_documentation
     (\<lambda>_. \<lparr> doc = Some ''@'', module = ''arm.logicnode.math.LN_add'', bl_idname = ''LNAddNode'' \<rparr>)
     \<lparr> nodetype = ''LNAddNode'', label = ''Add'' \<rparr>
     \<lparr> name = ''Math'', description = '''', all_nodes = [], deprecated_nodes = [] \<rparr>
   = Inr [Optional None, Paragraph (Text ''''),
          Image ''https://github.com/armory3d/armory_wiki_images/raw/master/logic_nodes/math/LNAddNode.jpg'' ''Add node'',
          Paragraph (Text ''**Sources:** [Python](https://github.com/armory3d/armory/blob/master/blender/arm/logicnode/math/LN_add.py) | [Haxe](https://github.com/armory3d/armory/blob/master/Sources/armory/logicnode/AddNode.hx)'')]"
  by code_simp

text \<open>
  C6 (as amended). A category with no node is not left out. In the main pass it gets
  its header (and its description paragraph when it has a description) and no node subtree.
  The listing, which follows the introduction in the document, has for every section with
  at least one category the name of the section and the links of all its categories, the
  empty ones too, and nothing for a section with no category.
\<close>

theorem empty_category_kept:
  assumes r: "run reg = Inr document"
    and cat: "cat \<in> set (all_categories reg)"
    and e1: "all_nodes cat = []" and e2: "deprecated_nodes cat = []"
  shows "(\<exists>pre post. document = pre @ category_header cat @ post)
         \<and> category_header cat
             = Header 2 (name cat)
               # (if description cat \<noteq> [] then [Paragraph (Text (description cat))] else [])
         \<and> (\<forall>cats doc0. categories_loop (get_nodetype reg) (cat # cats) doc0
               = categories_loop (get_nodetype reg) cats (doc0 @ category_header cat))
         \<and> (\<exists>post. document = intro_blocks (arm_version reg)
               @ [Header 2 ''Node Categories'',
                  UnorderedList (listing_items (title_case reg) (category_items reg))]
               @ post)
         \<and> listing_items (title_case reg) (category_items reg)
             = concat (map (\<lambda>(sec, cats).
                    [Span (Bold (Text (capitalize (title_case reg) sec))),
                     UnorderedList (map (\<lambda>c. Span (Link (Text (name c)) (get_anchor (name c)))) cats)])
                 (filter (\<lambda>(sec, cats). cats \<noteq> []) (category_items reg)))"
proof -
  let ?start = "intro_blocks (arm_version reg)
                @ [Header 2 ''Node Categories'',
                   UnorderedList (listing_items (title_case reg) (category_items reg))]"
  have c: "categories_loop (get_nodetype reg) (all_categories reg) ?start = Inr document"
    using r unfolding run_def Let_def .
  have a: "\<exists>pre post. document = pre @ category_header cat @ post"
    using categories_loop_header [OF c cat e1 e2] .
  have b: "category_header cat
             = Header 2 (name cat)
               # (if description cat \<noteq> [] then [Paragraph (Text (description cat))] else [])"
    by (simp add: category_header_def)
  have s: "\<forall>cats doc0. categories_loop (get_nodetype reg) (cat # cats) doc0
               = categories_loop (get_nodetype reg) cats (doc0 @ category_header cat)"
    using categories_loop_empty_category [OF e1 e2] by blast
  have l: "\<exists>post. document = ?start @ post"
    using categories_loop_extends [OF c] by simp
  have l': "\<exists>post. document = intro_blocks (arm_version reg)
               @ [Header 2 ''Node Categories'',
                  UnorderedList (listing_items (title_case reg) (category_items reg))]
               @ post"
    using l by simp
  note m = listing_items_eq [of "title_case reg" "category_items reg"]
  from a b s l' m show ?thesis by (intro conjI)
qed

text \<open>
  The hypotheses of C6 hold for a registry with one empty category in the section
  \<open>logic\<close> and an empty section \<open>default\<close>.
\<close>

theorem empty_category_kept_witness:
  "run \<lparr> category_items = [(''default'', []),
            (''logic'', [\<lparr> name = ''Empty'', description = ''Nothing yet'', all_nodes = [], deprecated_nodes = [] \<rparr>])],
          all_categories = [\<lparr> name = ''Empty'', description = ''Nothing yet'', all_nodes = [], deprecated_nodes = [] \<rparr>],
          get_nodetype = (\<lambda>_. \<lparr> doc = None, module = '''', bl_idname = '''' \<rparr>),
          arm_version = ''1.0'',
          title_case = (\<lambda>c. if c = CHR ''l'' then ''L'' else [c]) \<rparr>
   = Inr (intro_blocks ''1.0''
          @ [Header 2 ''Node Categories'',
             UnorderedList [Span (Bold (Text ''Logic'')),
                            UnorderedList [Span (Link (Text ''Empty'') ''#empty'')]],
             Header 2 ''Empty'',
             Paragraph (Text ''Nothing yet'')])
   \<and> (\<exists>pre post.
         intro_blocks ''1.0''
          @ [Header 2 ''Node Categories'',
             UnorderedList [Span (Bold (Text ''Logic'')),
                            UnorderedList [Span (Link (Text ''Empty'') ''#empty'')]],
             Header 2 ''Empty'',
             Paragraph (Text ''Nothing yet'')]
         = pre @ [Header 2 ''Empty'', Paragraph (Text ''Nothing yet'')] @ post)
   \<and> listing_items (\<lambda>c. if c = CHR ''l'' then ''L'' else [c])
         [(''default'', []),
          (''logic'', [\<lparr> name = ''Empty'', description = ''Nothing yet'', all_nodes = [], deprecated_nodes = [] \<rparr>])]
       = [Span (Bold (Text ''Logic'')), UnorderedList [Span (Link (Text ''Empty'') ''#empty'')]]"
proof -
  let ?cat = "\<lparr> name = ''Empty'', description = ''Nothing yet'', all_nodes = [], deprecated_nodes = [] \<rparr>"
  let ?tc = "\<lambda>c. if c = CHR ''l'' then ''L'' else [c]"
  let ?reg = "\<lparr> category_items = [(''default'', []), (''logic'', [?cat])],
          all_categories = [?cat],
          get_nodetype = (\<lambda>_. \<lparr> doc = None, module = '''', bl_idname = '''' \<rparr>),
          arm_version = ''1.0'', title_case = ?tc \<rparr>"
  let ?document = "intro_blocks ''1.0''
          @ [Header 2 ''Node Categories'',
             UnorderedList [Span (Bold (Text ''Logic'')),
                            UnorderedList [Span (Link (Text ''Empty'') ''#empty'')]],
             Header 2 ''Empty'',
             Paragraph (Text ''Nothing yet'')]"
  have r: "run ?reg = Inr ?document" by code_simp
  have c: "?cat \<in> set (all_categories ?reg)" by simp
  have e1: "all_nodes ?cat = []" and e2: "deprecated_nodes ?cat = []" by simp_all
  have h: "category_header ?cat = [Header 2 ''Empty'', Paragraph (Text ''Nothing yet'')]"
    by (simp add: category_header_def)
  have li: "listing_items ?tc [(''default'', []), (''logic'', [?cat])]
       = [Span (Bold (Text ''Logic'')), UnorderedList [Span (Link (Text ''Empty'') ''#empty'')]]"
    by code_simp
  note T = empty_category_kept [OF r c e1 e2]
  from T have p1: "\<exists>pre post. ?document = pre @ category_header ?cat @ post"
    by (rule conjunct1)
  show ?thesis
  proof (intro conjI)
    show "run ?reg = Inr ?document" by (rule r)
    show "\<exists>pre post. ?document = pre @ [Header 2 ''Empty'', Paragraph (Text ''Nothing yet'')] @ post"
      using p1 unfolding h .
    show "listing_items ?tc [(''default'', []), (''logic'', [?cat])]
       = [Span (Bold (Text ''Logic'')), UnorderedList [Span (Link (Text ''Empty'') ''#empty'')]]"
      by (rule li)
  qed
qed

text \<open>
  C6 as stated fails: the empty category is in the listing and has its header and
  description in the main pass.
\<close>

theorem empty_category_counterexample:
  "run \<lparr> category_items = [(''default'', []),
            (''logic'', [\<lparr> name = ''Empty'', description = ''Nothing yet'', all_nodes = [], deprecated_nodes = [] \<rparr>])],
          all_categories = [\<lparr> name = ''Empty'', description = ''Nothing yet'', all_nodes = [], deprecated_nodes = [] \<rparr>],
          get_nodetype = (\<lambda>_. \<lparr> doc = None, module = '''', bl_idname = '''' \<rparr>),
          arm_version = ''1.0'',
          title_case = (\<lambda>c. if c = CHR ''l'' then ''L'' else [c]) \<rparr>
   = Inr (intro_blocks ''1.0''
          @ [Header 2 ''Node Categories'',
             UnorderedList [Span (Bold (Text ''Logic'')),
                            UnorderedList [Span (Link (Text ''Empty'') ''#empty'')]],
             Header 2 ''Empty'',
             Paragraph (Text ''Nothing yet'')])"
  by code_simp

text \<open>
  C7 fails on the code: the loops go through every fragment, the text before the first
  \<open>@\<close> included. The docstring \<open>see the manual\<close> has no tag; it gives the description
  paragraph and, from the same text, a see-also section with one item.
\<close>

theorem leading_text_classified:
  "generate_node_documentation
     (\<lambda>_. \<lparr> doc = Some ''see the manual'', module = ''arm.logicnode.math.LN_add'', bl_idname = ''LNAddNode'' \<rparr>)
     \<lparr> nodetype = ''LNAddNode'', label = ''Add'' \<rparr>
     \<lparr> name = ''Math'', description = '''', all_nodes = [], deprecated_nodes = [] \<rparr>
   = Inr [Optional None, Paragraph (Text ''see the manual''),
          Paragraph (Bold (Text ''See also:'')),
          UnorderedList [Span (Italic (Text ''the manual''))],
          Image ''https://github.com/armory3d/armory_wiki_images/raw/master/logic_nodes/math/LNAddNode.jpg'' ''Add node'',
          Paragraph (Text ''**Sources:** [Python](https://github.com/armory3d/armory/blob/master/blender/arm/logicnode/math/LN_add.py) | [Haxe](https://github.com/armory3d/armory/blob/master/Sources/armory/logicnode/AddNode.hx)'')]"
  by code_simp

text \<open>
  C8. When \<open>run\<close> returns, the document is the introduction, the listing and then, for the
  categories in the order of \<open>get_all_categories()\<close>, the header of the category followed by
  the header and the blocks of each of its nodes, the nodes of \<open>get_all_nodes()\<close> and the
  deprecated nodes taken as one sequence sorted by label: the labels ascend, the sequence
  has exactly the nodes of the two lists, nodes with the same label keep the order they had
  in the two lists, and the blocks of a node are those its call returns. So the order the
  registry declares is lost and the deprecated nodes stand among the others.
\<close>

theorem nodes_sorted_by_label:
  assumes "run reg = Inr document"
  shows "document = intro_blocks (arm_version reg)
           @ [Header 2 ''Node Categories'',
              UnorderedList (listing_items (title_case reg) (category_items reg))]
           @ concat (map (\<lambda>cat. category_header cat
                 @ concat (map (\<lambda>item. Header 3 (label item) # node_blocks (get_nodetype reg) cat item)
                               (sorted_nodes cat)))
               (all_categories reg))
         \<and> (\<forall>cat \<in> set (all_categories reg).
               sorted (map label (sorted_nodes cat))
               \<and> mset (sorted_nodes cat) = mset (all_nodes cat) + mset (deprecated_nodes cat)
               \<and> (\<forall>l. filter (\<lambda>n. label n = l) (sorted_nodes cat)
                        = filter (\<lambda>n. label n = l) (all_nodes cat @ deprecated_nodes cat))
               \<and> (\<forall>item \<in> set (sorted_nodes cat).
                     generate_node_documentation (get_nodetype reg) item cat
                       = Inr (node_blocks (get_nodetype reg) cat item)))"
proof -
  have a: "document = intro_blocks (arm_version reg)
           @ [Header 2 ''Node Categories'',
              UnorderedList (listing_items (title_case reg) (category_items reg))]
           @ concat (map (\<lambda>cat. category_header cat
                 @ concat (map (\<lambda>item. Header 3 (label item) # node_blocks (get_nodetype reg) cat item)
                               (sorted_nodes cat)))
               (all_categories reg))"
    using run_Inr(1) [OF assms] by (simp add: category_blocks_def [abs_def])
  have b: "\<And>cat. sorted (map label (sorted_nodes cat))
      \<and> mset (sorted_nodes cat) = mset (all_nodes cat) + mset (deprecated_nodes cat)"
    by (simp add: sorted_nodes_def)
  have c: "\<forall>cat \<in> set (all_categories reg).
               sorted (map label (sorted_nodes cat))
               \<and> mset (sorted_nodes cat) = mset (all_nodes cat) + mset (deprecated_nodes cat)
               \<and> (\<forall>l. filter (\<lambda>n. label n = l) (sorted_nodes cat)
                        = filter (\<lambda>n. label n = l) (all_nodes cat @ deprecated_nodes cat))
               \<and> (\<forall>item \<in> set (sorted_nodes cat).
                     generate_node_documentation (get_nodetype reg) item cat
                       = Inr (node_blocks (get_nodetype reg) cat item))"
  proof (intro ballI conjI allI)
    fix cat assume cat: "cat \<in> set (all_categories reg)"
    show "sorted (map label (sorted_nodes cat))" using b by simp
    show "mset (sorted_nodes cat) = mset (all_nodes cat) + mset (deprecated_nodes cat)"
      using b by simp
    show "filter (\<lambda>n. label n = l) (sorted_nodes cat)
            = filter (\<lambda>n. label n = l) (all_nodes cat @ deprecated_nodes cat)" for l
      by (rule sorted_nodes_stable)
    show "generate_node_documentation (get_nodetype reg) item cat
            = Inr (node_blocks (get_nodetype reg) cat item)"
      if "item \<in> set (sorted_nodes cat)" for item
      using run_Inr(2) [OF assms] cat that by simp
  qed
  from a c show ?thesis by (rule conjI)
qed

text \<open>
  The hypothesis of C8 holds for a category with the nodes Vector and Add and the deprecated
  node Mix, which comes between them in the document.
\<close>

theorem nodes_sorted_by_label_witness:
  "run \<lparr> category_items = [(''logic'', [\<lparr> name = ''Math'', description = '''',
              all_nodes = [\<lparr> nodetype = ''LNVectorNode'', label = ''Vector'' \<rparr>,
                           \<lparr> nodetype = ''LNAddNode'', label = ''Add'' \<rparr>],
              deprecated_nodes = [\<lparr> nodetype = ''LNMixNode'', label = ''Mix'' \<rparr>] \<rparr>])],
          all_categories = [\<lparr> name = ''Math'', description = '''',
              all_nodes = [\<lparr> nodetype = ''LNVectorNode'', label = ''Vector'' \<rparr>,
                           \<lparr> nodetype = ''LNAddNode'', label = ''Add'' \<rparr>],
              deprecated_nodes = [\<lparr> nodetype = ''LNMixNode'', label = ''Mix'' \<rparr>] \<rparr>],
          get_nodetype = (\<lambda>_. \<lparr> doc = None, module = '''', bl_idname = '''' \<rparr>),
          arm_version = ''1.0'',
          title_case = (\<lambda>c. if c = CHR ''l'' then ''L'' else [c]) \<rparr>
   = Inr (intro_blocks ''1.0''
          @ [Header 2 ''Node Categories'',
             UnorderedList [Span (Bold (Text ''Logic'')),
                            UnorderedList [Span (Link (Text ''Math'') ''#math'')]],
             Header 2 ''Math'', Header 3 ''Add'', Header 3 ''Mix'', Header 3 ''Vector''])
   \<and> sorted_nodes \<lparr> name = ''Math'', description = '''',
              all_nodes = [\<lparr> nodetype = ''LNVectorNode'', label = ''Vector'' \<rparr>,
                           \<lparr> nodetype = ''LNAddNode'', label = ''Add'' \<rparr>],
              deprecated_nodes = [\<lparr> nodetype = ''LNMixNode'', label = ''Mix'' \<rparr>] \<rparr>
       = [\<lparr> nodetype = ''LNAddNode'', label = ''Add'' \<rparr>,
          \<lparr> nodetype = ''LNMixNode'', label = ''Mix'' \<rparr>,
          \<lparr> nodetype = ''LNVectorNode'', label = ''Vector'' \<rparr>]
   \<and> sorted [''Add'', ''Mix'', ''Vector'']"
proof -
  let ?cat = "\<lparr> name = ''Math'', description = '''',
              all_nodes = [\<lparr> nodetype = ''LNVectorNode'', label = ''Vector'' \<rparr>,
                           \<lparr> nodetype = ''LNAddNode'', label = ''Add'' \<rparr>],
              deprecated_nodes = [\<lparr> nodetype = ''LNMixNode'', label = ''Mix'' \<rparr>] \<rparr>"
  let ?reg = "\<lparr> category_items = [(''logic'', [?cat])], all_categories = [?cat],
          get_nodetype = (\<lambda>_. \<lparr> doc = None, module = '''', bl_idname = '''' \<rparr>),
          arm_version = ''1.0'',
          title_case = (\<lambda>c. if c = CHR ''l'' then ''L'' else [c]) \<rparr>"
  let ?document = "intro_blocks ''1.0''
          @ [Header 2 ''Node Categories'',
             UnorderedList [Span (Bold (Text ''Logic'')),
                            UnorderedList [Span (Link (Text ''Math'') ''#math'')]],
             Header 2 ''Math'', Header 3 ''Add'', Header 3 ''Mix'', Header 3 ''Vector'']"
  have r: "run ?reg = Inr ?document" by code_simp
  have s: "sorted_nodes ?cat
       = [\<lparr> nodetype = ''LNAddNode'', label = ''Add'' \<rparr>,
          \<lparr> nodetype = ''LNMixNode'', label = ''Mix'' \<rparr>,
          \<lparr> nodetype = ''LNVectorNode'', label = ''Vector'' \<rparr>]"
    by code_simp
  note T = nodes_sorted_by_label [OF r, THEN conjunct2, rule_format, of ?cat]
  have m: "?cat \<in> set (all_categories ?reg)" by simp
  from T [OF m] have "sorted (map label (sorted_nodes ?cat))" by (rule conjunct1)
  then have "sorted [''Add'', ''Mix'', ''Vector'']" unfolding s by simp
  with r s show ?thesis by (intro conjI)
qed



text \<open>
  C10. When the node has a docstring and the call returns, the last block it has added is
  the paragraph of the sources: the Python link joins the components of the module path from
  the third on with \<open>/\<close> and ends in \<open>.py\<close>, the Haxe link drops the first two characters of
  \<open>bl_idname\<close>, whatever they are, and ends in \<open>.hx\<close>.
\<close>

theorem sources_paragraph_last:
  assumes d: "doc (types (nodetype item)) = Some d"
    and g: "generate_node_documentation types item cat = Inr blocks"
  shows "blocks \<noteq> []
         \<and> last blocks =
             Paragraph (Text (''**Sources:** [Python]('' @ PY_NODE_DIR
               @ join ''/'' (drop 2 (split_on CHR ''.'' (module (types (nodetype item))))) @ ''.py)''
               @ '' | [Haxe]('' @ HX_NODE_DIR
               @ drop 2 (bl_idname (types (nodetype item))) @ ''.hx)''))"
proof -
  have "blocks = node_layout item cat (types (nodetype item)) (split_on CHR ''@'' d)"
    using generate_Some [where types = types and item = item and cat = cat, OF d] g
    by (simp split: if_splits)
  then show ?thesis
    using node_layout_last [of item cat "types (nodetype item)" "split_on CHR ''@'' d"]
    by (simp add: sources_block_text)
qed

text \<open>
  The hypotheses of C10 hold for the docstring \<open>Adds.@input a: x\<close>; the identifier
  \<open>XYAddNode\<close> loses its first two characters although they are not \<open>LN\<close>.
\<close>

theorem sources_paragraph_last_witness:
  "generate_node_documentation
     (\<lambda>_. \<lparr> doc = Some ''Adds.@input a: x'', module = ''arm.logicnode.math.LN_add'', bl_idname = ''XYAddNode'' \<rparr>)
     \<lparr> nodetype = ''LNAddNode'', label = ''Add'' \<rparr>
     \<lparr> name = ''Math'', description = '''', all_nodes = [], deprecated_nodes = [] \<rparr>
   = Inr [Optional None, Paragraph (Text ''Adds.''),
          Image ''https://github.com/armory3d/armory_wiki_images/raw/master/logic_nodes/math/LNAddNode.jpg'' ''Add node'',
          Paragraph (Bold (Text ''Inputs:'')),
          UnorderedList [Span (Text ''`a`: x'')],
          Paragraph (Text ''**Sources:** [Python](https://github.com/armory3d/armory/blob/master/blender/arm/logicnode/math/LN_add.py) | [Haxe](https://github.com/armory3d/armory/blob/master/Sources/armory/logicnode/AddNode.hx)'')]
   \<and> last [Optional None, Paragraph (Text ''Adds.''),
          Image ''https://github.com/armory3d/armory_wiki_images/raw/master/logic_nodes/math/LNAddNode.jpg'' ''Add node'',
          Paragraph (Bold (Text ''Inputs:'')),
          UnorderedList [Span (Text ''`a`: x'')],
          Paragraph (Text ''**Sources:** [Python](https://github.com/armory3d/armory/blob/master/blender/arm/logicnode/math/LN_add.py) | [Haxe](https://github.com/armory3d/armory/blob/master/Sources/armory/logicnode/AddNode.hx)'')]
     = Paragraph (Text (''**Sources:** [Python]('' @ PY_NODE_DIR
               @ join ''/'' (drop 2 (split_on CHR ''.'' ''arm.logicnode.math.LN_add'')) @ ''.py)''
               @ '' | [Haxe]('' @ HX_NODE_DIR @ drop 2 ''XYAddNode'' @ ''.hx)''))"
proof -
  let ?types = "\<lambda>_ :: string. \<lparr> doc = Some ''Adds.@input a: x'', module = ''arm.logicnode.math.LN_add'', bl_idname = ''XYAddNode'' \<rparr>"
  let ?item = "\<lparr> nodetype = ''LNAddNode'', label = ''Add'' \<rparr>"
  let ?cat = "\<lparr> name = ''Math'', description = '''', all_nodes = [], deprecated_nodes = [] \<rparr>"
  let ?blocks = "[Optional None, Paragraph (Text ''Adds.''),
          Image ''https://github.com/armory3d/armory_wiki_images/raw/master/logic_nodes/math/LNAddNode.jpg'' ''Add node'',
          Paragraph (Bold (Text ''Inputs:'')),
          UnorderedList [Span (Text ''`a`: x'')],
          Paragraph (Text ''**Sources:** [Python](https://github.com/armory3d/armory/blob/master/blender/arm/logicnode/math/LN_add.py) | [Haxe](https://github.com/armory3d/armory/blob/master/Sources/armory/logicnode/AddNode.hx)'')]"
  have d: "doc (?types (nodetype ?item)) = Some ''Adds.@input a: x''" by simp
  have g: "generate_node_documentation ?types ?item ?cat = Inr ?blocks" by code_simp
  from sources_paragraph_last [where types = ?types and item = ?item and cat = ?cat, OF d g]
  show ?thesis using g by simp
qed

end
